theory Spec2Isabelle
  imports Complex_Main "HOL-Library.Code_Target_Numeral"
begin

section \<open>JavaScript strings and buffers\<close>

text \<open>
  A JavaScript string is the list of its UTF-16 code units, a \<open>Buffer\<close> the list of its
  bytes. Both are lists of naturals; \<open>js\<close> turns a literal of the source into code units.
\<close>

type_synonym jsstring = "nat list"
type_synonym buffer = "nat list"

definition js :: "string \<Rightarrow> jsstring" where
  "js s = map of_char s"

subsection \<open>\<open>Buffer.from(str)\<close> and \<open>buf.toString('utf-8')\<close>\<close>

text \<open>
  \<open>Buffer.from(str)\<close> encodes a string as UTF-8; a surrogate pair becomes one four-byte
  sequence and a lone surrogate the three bytes of U+FFFD.
\<close>

definition replacement :: buffer where
  "replacement = [0xEF, 0xBF, 0xBD]"

fun utf8_encode :: "jsstring \<Rightarrow> buffer" where
  "utf8_encode [] = []"
| "utf8_encode (c # cs) =
     (if c < 0x80 then c # utf8_encode cs
      else if c < 0x800 then (0xC0 + c div 64) # (0x80 + c mod 64) # utf8_encode cs
      else if 0xD800 \<le> c \<and> c < 0xDC00 then
        (case cs of
           [] \<Rightarrow> replacement
         | d # ds \<Rightarrow>
             if 0xDC00 \<le> d \<and> d < 0xE000 then
               (let cp = 0x10000 + (c - 0xD800) * 1024 + (d - 0xDC00)
                in (0xF0 + cp div 262144) # (0x80 + (cp div 4096) mod 64)
                   # (0x80 + (cp div 64) mod 64) # (0x80 + cp mod 64) # utf8_encode ds)
             else replacement @ utf8_encode cs)
      else if 0xDC00 \<le> c \<and> c < 0xE000 then replacement @ utf8_encode cs
      else (0xE0 + c div 4096) # (0x80 + (c div 64) mod 64) # (0x80 + c mod 64)
           # utf8_encode cs)"

text \<open>
  \<open>buf.toString('utf-8')\<close> never fails: every maximal ill-formed part of the input
  becomes one U+FFFD and decoding goes on at the byte that broke the sequence. A code
  point above U+FFFF is stored as a surrogate pair.
\<close>

definition continuation :: "nat \<Rightarrow> bool" where
  "continuation b \<longleftrightarrow> 0x80 \<le> b \<and> b \<le> 0xBF"

definition second_ok :: "nat \<Rightarrow> nat \<Rightarrow> bool" where
  "second_ok b c \<longleftrightarrow>
     (if b = 0xE0 then 0xA0 \<le> c \<and> c \<le> 0xBF
      else if b = 0xED then 0x80 \<le> c \<and> c \<le> 0x9F
      else if b = 0xF0 then 0x90 \<le> c \<and> c \<le> 0xBF
      else if b = 0xF4 then 0x80 \<le> c \<and> c \<le> 0x8F
      else continuation c)"

definition code_units :: "nat \<Rightarrow> jsstring" where
  "code_units cp =
     (if cp < 0x10000 then [cp]
      else [0xD800 + (cp - 0x10000) div 1024, 0xDC00 + (cp - 0x10000) mod 1024])"

definition utf8_step :: "nat \<Rightarrow> buffer \<Rightarrow> jsstring \<times> nat" where
  \<comment> \<open>the code units of the sequence that starts with \<open>b\<close>, and how many of the
      following bytes \<open>bs\<close> it takes\<close>
  "utf8_step b bs =
     (if b < 0x80 then ([b], 0)
      else if 0xC2 \<le> b \<and> b \<le> 0xDF then
        (case bs of
           [] \<Rightarrow> ([0xFFFD], 0)
         | c # bs1 \<Rightarrow>
             if continuation c then ([(b - 0xC0) * 64 + (c - 0x80)], 1) else ([0xFFFD], 0))
      else if 0xE0 \<le> b \<and> b \<le> 0xEF then
        (case bs of
           [] \<Rightarrow> ([0xFFFD], 0)
         | c # bs1 \<Rightarrow>
             if second_ok b c then
               (case bs1 of
                  [] \<Rightarrow> ([0xFFFD], 1)
                | d # bs2 \<Rightarrow>
                    if continuation d
                    then ([(b - 0xE0) * 4096 + (c - 0x80) * 64 + (d - 0x80)], 2)
                    else ([0xFFFD], 1))
             else ([0xFFFD], 0))
      else if 0xF0 \<le> b \<and> b \<le> 0xF4 then
        (case bs of
           [] \<Rightarrow> ([0xFFFD], 0)
         | c # bs1 \<Rightarrow>
             if second_ok b c then
               (case bs1 of
                  [] \<Rightarrow> ([0xFFFD], 1)
                | d # bs2 \<Rightarrow>
                    if continuation d then
                      (case bs2 of
                         [] \<Rightarrow> ([0xFFFD], 2)
                       | e # bs3 \<Rightarrow>
                           if continuation e
                           then (code_units ((b - 0xF0) * 262144 + (c - 0x80) * 4096
                                             + (d - 0x80) * 64 + (e - 0x80)), 3)
                           else ([0xFFFD], 2))
                    else ([0xFFFD], 1))
             else ([0xFFFD], 0))
      else ([0xFFFD], 0))"

function utf8_decode :: "buffer \<Rightarrow> jsstring" where
  "utf8_decode [] = []"
| "utf8_decode (b # bs) =
     (case utf8_step b bs of (out, k) \<Rightarrow> out @ utf8_decode (drop k bs))"
  by pat_completeness auto
termination
  by (relation "measure length") auto

subsection \<open>\<open>buf.toString('base64')\<close>, \<open>Buffer.from(str, 'base64')\<close> and \<open>buf.toString('hex')\<close>\<close>

definition b64char :: "nat \<Rightarrow> nat" where
  "b64char n =
     (if n < 26 then 65 + n
      else if n < 52 then 97 + (n - 26)
      else if n < 62 then 48 + (n - 52)
      else if n = 62 then 43
      else 47)"

fun base64_encode :: "buffer \<Rightarrow> jsstring" where
  "base64_encode (a # b # c # rest) =
     b64char (a div 4) # b64char ((a mod 4) * 16 + b div 16)
     # b64char ((b mod 16) * 4 + c div 64) # b64char (c mod 64) # base64_encode rest"
| "base64_encode [a, b] =
     [b64char (a div 4), b64char ((a mod 4) * 16 + b div 16), b64char ((b mod 16) * 4), 61]"
| "base64_encode [a] = [b64char (a div 4), b64char ((a mod 4) * 16), 61, 61]"
| "base64_encode [] = []"

text \<open>
  Node's decoder is lenient: it reads the low byte of every code unit, accepts the
  URL-safe alphabet as well, skips every character outside both alphabets and stops at
  the first \<open>=\<close>. A trailing group of two or three characters gives one or two bytes and a
  single trailing character gives none.
\<close>

definition unbase64 :: "nat \<Rightarrow> nat option" where
  "unbase64 c =
     (if 65 \<le> c \<and> c \<le> 90 then Some (c - 65)
      else if 97 \<le> c \<and> c \<le> 122 then Some (c - 97 + 26)
      else if 48 \<le> c \<and> c \<le> 57 then Some (c - 48 + 52)
      else if c = 43 \<or> c = 45 then Some 62
      else if c = 47 \<or> c = 95 then Some 63
      else None)"

fun sextets_to_bytes :: "nat list \<Rightarrow> buffer" where
  "sextets_to_bytes (a # b # c # d # rest) =
     (a * 4 + b div 16) # ((b mod 16) * 16 + c div 4) # ((c mod 4) * 64 + d)
     # sextets_to_bytes rest"
| "sextets_to_bytes [a, b, c] = [a * 4 + b div 16, (b mod 16) * 16 + c div 4]"
| "sextets_to_bytes [a, b] = [a * 4 + b div 16]"
| "sextets_to_bytes [a] = []"
| "sextets_to_bytes [] = []"

definition base64_decode :: "jsstring \<Rightarrow> buffer" where
  "base64_decode s =
     sextets_to_bytes
       (List.map_filter unbase64 (takeWhile (\<lambda>c. c \<noteq> 61) (map (\<lambda>c. c mod 256) s)))"

definition hexdigit :: "nat \<Rightarrow> nat" where
  "hexdigit n = (if n < 10 then 48 + n else 87 + n)"

definition hex_encode :: "buffer \<Rightarrow> jsstring" where
  "hex_encode bs = concat (map (\<lambda>b. [hexdigit (b div 16), hexdigit (b mod 16)]) bs)"

section \<open>JSON\<close>

subsection \<open>\<open>JSON.stringify\<close> on the objects the generator builds\<close>

text \<open>
  The generator only serialises flat object literals whose properties are strings,
  integral numbers and \<open>null\<close>; \<open>stringify\<close> is \<open>JSON.stringify\<close> on such objects. A
  number is printed in decimal (the timestamps and counts of the licensing system are
  integers far below \<open>10\<^sup>2\<^sup>1\<close>, where JavaScript changes to exponent notation).
\<close>

datatype property = VStr jsstring | VNum int | VNull

definition hex4 :: "nat \<Rightarrow> jsstring" where
  "hex4 c = [hexdigit (c div 4096), hexdigit ((c div 256) mod 16),
             hexdigit ((c div 16) mod 16), hexdigit (c mod 16)]"

definition escape_unit :: "nat \<Rightarrow> jsstring" where
  "escape_unit c =
     (if c = 8 then [92, 98]
      else if c = 9 then [92, 116]
      else if c = 10 then [92, 110]
      else if c = 12 then [92, 102]
      else if c = 13 then [92, 114]
      else if c = 34 then [92, 34]
      else if c = 92 then [92, 92]
      else if c < 32 then 92 # 117 # hex4 c
      else [c])"

fun quote_units :: "jsstring \<Rightarrow> jsstring" where
  "quote_units [] = []"
| "quote_units (c # cs) =
     (if 0xD800 \<le> c \<and> c < 0xDC00 then
        (case cs of
           [] \<Rightarrow> 92 # 117 # hex4 c
         | d # ds \<Rightarrow>
             if 0xDC00 \<le> d \<and> d < 0xE000 then c # d # quote_units ds
             else 92 # 117 # hex4 c @ quote_units cs)
      else if 0xDC00 \<le> c \<and> c < 0xE000 then 92 # 117 # hex4 c @ quote_units cs
      else escape_unit c @ quote_units cs)"

definition json_quote :: "jsstring \<Rightarrow> jsstring" where
  "json_quote s = 34 # quote_units s @ [34]"

fun digits :: "nat \<Rightarrow> jsstring" where
  "digits n = (if n < 10 then [48 + n] else digits (n div 10) @ [48 + n mod 10])"

declare digits.simps [simp del]

definition show_int :: "int \<Rightarrow> jsstring" where
  "show_int i = (if i < 0 then 45 # digits (nat (- i)) else digits (nat i))"

fun stringify_property :: "property \<Rightarrow> jsstring" where
  "stringify_property (VStr s) = json_quote s"
| "stringify_property (VNum i) = show_int i"
| "stringify_property VNull = js ''null''"

fun join :: "jsstring \<Rightarrow> jsstring list \<Rightarrow> jsstring" where
  "join sep [] = []"
| "join sep [x] = x"
| "join sep (x # y # ys) = x @ sep @ join sep (y # ys)"

definition stringify :: "(string \<times> property) list \<Rightarrow> jsstring" where
  "stringify ps =
     123 # join [44] (map (\<lambda>(k, v). json_quote (js k) @ 58 # stringify_property v) ps) @ [125]"

subsection \<open>\<open>JSON.parse\<close>\<close>

text \<open>
  Numbers are kept exact, as rationals: the rounding of a literal to a double is not
  modelled. An object keeps its members in source order, duplicates included; reading a
  property takes the last one, as \<open>JSON.parse\<close> lets a later member overwrite an earlier.
\<close>

datatype json =
    JNull
  | JBool bool
  | JNum rat
  | JStr jsstring
  | JArr "json list"
  | JObj "(jsstring \<times> json) list"

datatype token =
    TLBrace | TRBrace | TLBracket | TRBracket | TColon | TComma
  | TString jsstring | TNumber rat | TTrue | TFalse | TNull

definition hexval :: "nat \<Rightarrow> nat option" where
  "hexval c =
     (if 48 \<le> c \<and> c \<le> 57 then Some (c - 48)
      else if 65 \<le> c \<and> c \<le> 70 then Some (c - 55)
      else if 97 \<le> c \<and> c \<le> 102 then Some (c - 87)
      else None)"

definition unhex4 :: "nat \<Rightarrow> nat \<Rightarrow> nat \<Rightarrow> nat \<Rightarrow> nat option" where
  "unhex4 a b c d =
     (case (hexval a, hexval b, hexval c, hexval d) of
        (Some w, Some x, Some y, Some z) \<Rightarrow> Some (w * 4096 + x * 256 + y * 16 + z)
      | _ \<Rightarrow> None)"

definition unescape :: "nat \<Rightarrow> nat option" where
  "unescape e =
     (if e = 34 \<or> e = 92 \<or> e = 47 then Some e
      else if e = 98 then Some 8
      else if e = 102 then Some 12
      else if e = 110 then Some 10
      else if e = 114 then Some 13
      else if e = 116 then Some 9
      else None)"

text \<open>
  \<open>lex_string cs acc\<close> reads a string literal after its opening quote: it gives the
  string and the text after the closing quote, or \<open>None\<close> where \<open>JSON.parse\<close> raises
  (an unterminated literal, a raw control character, a bad escape).
\<close>

definition read_escape :: "jsstring \<Rightarrow> (nat \<times> nat) option" where
  \<comment> \<open>the code unit an escape stands for, and the number of characters it takes after
      the backslash\<close>
  "read_escape cs =
     (case cs of
        [] \<Rightarrow> None
      | e # es \<Rightarrow>
          if e = 117 then
            (case es of
               h1 # h2 # h3 # h4 # rest \<Rightarrow> map_option (\<lambda>u. (u, 5)) (unhex4 h1 h2 h3 h4)
             | _ \<Rightarrow> None)
          else map_option (\<lambda>u. (u, 1)) (unescape e))"

function lex_string :: "jsstring \<Rightarrow> jsstring \<Rightarrow> (jsstring \<times> jsstring) option" where
  "lex_string [] acc = None"
| "lex_string (c # cs) acc =
     (if c = 34 then Some (rev acc, cs)
      else if c = 92 then
        (case read_escape cs of
           None \<Rightarrow> None
         | Some (u, k) \<Rightarrow> lex_string (drop k cs) (u # acc))
      else if c < 32 then None
      else lex_string cs (c # acc))"
  by pat_completeness auto
termination
  by (relation "measure (\<lambda>(cs, acc). length cs)") auto

definition is_digit :: "nat \<Rightarrow> bool" where
  "is_digit c \<longleftrightarrow> 48 \<le> c \<and> c \<le> 57"

definition digits_value :: "jsstring \<Rightarrow> nat" where
  "digits_value ds = foldl (\<lambda>n d. 10 * n + (d - 48)) 0 ds"

text \<open>
  \<open>lex_number cs\<close> reads a number literal at the head of \<open>cs\<close>: an optional minus, an
  integer part without a leading zero, an optional fraction and an optional exponent.
\<close>

definition lex_sign :: "jsstring \<Rightarrow> bool \<times> jsstring" where
  "lex_sign cs = (case cs of [] \<Rightarrow> (False, []) | c # r \<Rightarrow> if c = 45 then (True, r) else (False, cs))"

definition lex_frac :: "jsstring \<Rightarrow> (jsstring \<times> jsstring) option" where
  "lex_frac cs =
     (case cs of
        [] \<Rightarrow> Some ([], [])
      | c # r \<Rightarrow>
          if c = 46 then
            (if takeWhile is_digit r = [] then None
             else Some (takeWhile is_digit r, dropWhile is_digit r))
          else Some ([], cs))"

definition lex_exp_sign :: "jsstring \<Rightarrow> bool \<times> jsstring" where
  "lex_exp_sign cs =
     (case cs of
        [] \<Rightarrow> (False, [])
      | c # r \<Rightarrow> if c = 45 then (True, r) else if c = 43 then (False, r) else (False, cs))"

definition lex_exp :: "jsstring \<Rightarrow> (int \<times> jsstring) option" where
  "lex_exp cs =
     (case cs of
        [] \<Rightarrow> Some (0, [])
      | c # r \<Rightarrow>
          if c = 101 \<or> c = 69 then
            (case lex_exp_sign r of
               (neg, r') \<Rightarrow>
                 if takeWhile is_digit r' = [] then None
                 else Some ((if neg then - 1 else 1) * int (digits_value (takeWhile is_digit r')),
                            dropWhile is_digit r'))
          else Some (0, cs))"

definition number_value :: "bool \<Rightarrow> jsstring \<Rightarrow> jsstring \<Rightarrow> int \<Rightarrow> rat" where
  "number_value neg ip fp e =
     (let mantissa = of_nat (digits_value ip) + of_nat (digits_value fp) / 10 ^ length fp;
          scaled = (if e < 0 then mantissa / 10 ^ nat (- e) else mantissa * 10 ^ nat e)
      in if neg then - scaled else scaled)"

definition lex_number :: "jsstring \<Rightarrow> (rat \<times> jsstring) option" where
  "lex_number cs =
     (case lex_sign cs of
        (neg, cs1) \<Rightarrow>
          if takeWhile is_digit cs1 = [] then None
          else if 1 < length (takeWhile is_digit cs1) \<and> hd (takeWhile is_digit cs1) = 48
          then None
          else
            (case lex_frac (dropWhile is_digit cs1) of
               None \<Rightarrow> None
             | Some (fp, cs2) \<Rightarrow>
                 (case lex_exp cs2 of
                    None \<Rightarrow> None
                  | Some (e, cs3) \<Rightarrow>
                      Some (number_value neg (takeWhile is_digit cs1) fp e, cs3))))"

lemma dropWhile_shorter: "takeWhile P xs \<noteq> [] \<Longrightarrow> length (dropWhile P xs) < length xs"
  by (cases xs) (auto simp: le_imp_less_Suc length_dropWhile_le split: if_splits)

lemma lex_string_shorter: "lex_string cs acc = Some (s, rest) \<Longrightarrow> length rest < length cs"
proof (induction cs acc rule: lex_string.induct)
  case (1 acc)
  then show ?case by simp
next
  case (2 c cs acc)
  consider (quote) "c = 34" | (escape) "c \<noteq> 34" "c = 92" | (plain) "c \<noteq> 34" "c \<noteq> 92"
    by blast
  then show ?case
  proof cases
    case quote
    with "2.prems" show ?thesis by simp
  next
    case escape
    with "2.prems" obtain u k where e: "read_escape cs = Some (u, k)"
      and r: "lex_string (drop k cs) (u # acc) = Some (s, rest)"
      by (auto split: option.splits)
    from "2.IH"(1) [OF escape e refl r] have "length rest < length (drop k cs)" .
    then show ?thesis by simp
  next
    case plain
    with "2.prems" have "\<not> c < 32" and "lex_string cs (c # acc) = Some (s, rest)"
      by (auto split: if_splits)
    with "2.IH"(2) [OF plain] show ?thesis by simp
  qed
qed

lemma lex_sign_le: "lex_sign cs = (neg, rest) \<Longrightarrow> length rest \<le> length cs"
  by (auto simp: lex_sign_def split: list.splits if_splits)

lemma lex_frac_le: "lex_frac cs = Some (fp, rest) \<Longrightarrow> length rest \<le> length cs"
  by (auto simp: lex_frac_def le_SucI length_dropWhile_le split: list.splits if_splits)

lemma lex_exp_sign_le: "lex_exp_sign cs = (neg, rest) \<Longrightarrow> length rest \<le> length cs"
  by (auto simp: lex_exp_sign_def split: list.splits if_splits)

lemma lex_exp_le:
  assumes "lex_exp cs = Some (e, rest)"
  shows "length rest \<le> length cs"
proof (cases cs)
  case Nil
  with assms show ?thesis by (simp add: lex_exp_def)
next
  case (Cons c r)
  show ?thesis
  proof (cases "c = 101 \<or> c = 69")
    case False
    with assms Cons show ?thesis by (auto simp: lex_exp_def)
  next
    case True
    obtain neg r' where s: "lex_exp_sign r = (neg, r')"
      by (cases "lex_exp_sign r")
    with assms Cons True have "rest = dropWhile is_digit r'"
      by (auto simp: lex_exp_def split: if_splits)
    moreover have "length (dropWhile is_digit r') \<le> length r'"
      by (rule length_dropWhile_le)
    moreover from s have "length r' \<le> length r"
      by (rule lex_exp_sign_le)
    ultimately show ?thesis
      using Cons by simp
  qed
qed

lemma lex_number_shorter:
  assumes "lex_number cs = Some (r, rest)"
  shows "length rest < length cs"
proof -
  obtain neg cs1 where s: "lex_sign cs = (neg, cs1)"
    by (cases "lex_sign cs")
  with assms have ip: "takeWhile is_digit cs1 \<noteq> []"
    by (auto simp: lex_number_def split: if_splits)
  with assms s obtain fp cs2 e
    where f: "lex_frac (dropWhile is_digit cs1) = Some (fp, cs2)"
      and x: "lex_exp cs2 = Some (e, rest)"
    by (auto simp: lex_number_def split: if_splits option.splits)
  from s have "length cs1 \<le> length cs"
    by (rule lex_sign_le)
  moreover from ip have "length (dropWhile is_digit cs1) < length cs1"
    by (rule dropWhile_shorter)
  moreover from f have "length cs2 \<le> length (dropWhile is_digit cs1)"
    by (rule lex_frac_le)
  moreover from x have "length rest \<le> length cs2"
    by (rule lex_exp_le)
  ultimately show ?thesis
    by linarith
qed

definition is_space :: "nat \<Rightarrow> bool" where
  "is_space c \<longleftrightarrow> c = 32 \<or> c = 9 \<or> c = 10 \<or> c = 13"

function tokens :: "jsstring \<Rightarrow> token list option" where
  "tokens [] = Some []"
| "tokens (c # cs) =
     (if is_space c then tokens cs
      else if c = 123 then map_option (Cons TLBrace) (tokens cs)
      else if c = 125 then map_option (Cons TRBrace) (tokens cs)
      else if c = 91 then map_option (Cons TLBracket) (tokens cs)
      else if c = 93 then map_option (Cons TRBracket) (tokens cs)
      else if c = 58 then map_option (Cons TColon) (tokens cs)
      else if c = 44 then map_option (Cons TComma) (tokens cs)
      else if c = 34 then
        (case lex_string cs [] of
           None \<Rightarrow> None
         | Some (s, rest) \<Rightarrow> map_option (Cons (TString s)) (tokens rest))
      else if c = 45 \<or> is_digit c then
        (case lex_number (c # cs) of
           None \<Rightarrow> None
         | Some (r, rest) \<Rightarrow> map_option (Cons (TNumber r)) (tokens rest))
      else if take 4 (c # cs) = js ''true'' then map_option (Cons TTrue) (tokens (drop 3 cs))
      else if take 5 (c # cs) = js ''false'' then map_option (Cons TFalse) (tokens (drop 4 cs))
      else if take 4 (c # cs) = js ''null'' then map_option (Cons TNull) (tokens (drop 3 cs))
      else None)"
  by pat_completeness auto
termination
  by (relation "measure length") (auto dest: lex_string_shorter lex_number_shorter)

datatype frame = FArr "json list" | FObj "(jsstring \<times> json) list" jsstring

datatype pstate =
    Start "frame list"
  | ArrOpen "frame list"
  | ObjOpen "frame list"
  | ObjKey "(jsstring \<times> json) list" "frame list"
  | ObjColon "(jsstring \<times> json) list" jsstring "frame list"
  | After json "frame list"

text \<open>
  The parser reads the tokens one at a time and keeps the arrays and objects that are
  still open on a stack. \<open>Start\<close> expects a value; \<open>After v\<close> has completed the value \<open>v\<close>,
  which belongs to the innermost open container or, on an empty stack, is the result.
\<close>

fun value_start :: "token \<Rightarrow> frame list \<Rightarrow> pstate option" where
  "value_start (TString s) st = Some (After (JStr s) st)"
| "value_start (TNumber r) st = Some (After (JNum r) st)"
| "value_start TTrue st = Some (After (JBool True) st)"
| "value_start TFalse st = Some (After (JBool False) st)"
| "value_start TNull st = Some (After JNull st)"
| "value_start TLBracket st = Some (ArrOpen st)"
| "value_start TLBrace st = Some (ObjOpen st)"
| "value_start _ st = None"

fun pstep :: "pstate \<Rightarrow> token \<Rightarrow> pstate option" where
  "pstep (Start st) t = value_start t st"
| "pstep (ArrOpen st) t =
     (if t = TRBracket then Some (After (JArr []) st) else value_start t (FArr [] # st))"
| "pstep (ObjOpen st) t =
     (case t of
        TRBrace \<Rightarrow> Some (After (JObj []) st)
      | TString k \<Rightarrow> Some (ObjColon [] k st)
      | _ \<Rightarrow> None)"
| "pstep (ObjKey ms st) t = (case t of TString k \<Rightarrow> Some (ObjColon ms k st) | _ \<Rightarrow> None)"
| "pstep (ObjColon ms k st) t = (if t = TColon then Some (Start (FObj ms k # st)) else None)"
| "pstep (After v []) t = None"
| "pstep (After v (FArr es # st)) t =
     (case t of
        TComma \<Rightarrow> Some (Start (FArr (v # es) # st))
      | TRBracket \<Rightarrow> Some (After (JArr (rev (v # es))) st)
      | _ \<Rightarrow> None)"
| "pstep (After v (FObj ms k # st)) t =
     (case t of
        TComma \<Rightarrow> Some (ObjKey ((k, v) # ms) st)
      | TRBrace \<Rightarrow> Some (After (JObj (rev ((k, v) # ms))) st)
      | _ \<Rightarrow> None)"

fun prun :: "pstate \<Rightarrow> token list \<Rightarrow> pstate option" where
  "prun s [] = Some s"
| "prun s (t # ts) = (case pstep s t of None \<Rightarrow> None | Some s' \<Rightarrow> prun s' ts)"

text \<open>\<open>JSON_parse s\<close> is \<open>None\<close> where \<open>JSON.parse(s)\<close> raises a \<open>SyntaxError\<close>.\<close>

definition JSON_parse :: "jsstring \<Rightarrow> json option" where
  "JSON_parse s =
     (case tokens s of
        None \<Rightarrow> None
      | Some ts \<Rightarrow> (case prun (Start []) ts of Some (After v []) \<Rightarrow> Some v | _ \<Rightarrow> None))"

section \<open>The license generator (\<open>server/license-generator.ts\<close>)\<close>

text \<open>
  What the class takes from the Node runtime is a parameter of the model: \<open>crypto_sign\<close>
  is \<open>crypto.sign('sha256', data, {key: privateKey, padding: RSA_PKCS1_PSS_PADDING})\<close>
  with the private key of the generator (and the salt of the call), \<open>crypto_verify\<close> is
  \<open>crypto.verify\<close> with its public key. \<open>buffer_from_object\<close> is \<open>Buffer.from\<close> on an array
  or an object and \<open>greater_than t v\<close> is \<open>t > v\<close> for a string, an array or an object
  \<open>v\<close>; both follow JavaScript's coercion rules, which are not modelled, and give \<open>None\<close>
  where the runtime throws.
\<close>

record runtime =
  crypto_sign :: "buffer \<Rightarrow> buffer"
  crypto_verify :: "buffer \<Rightarrow> buffer \<Rightarrow> bool"
  buffer_from_object :: "json \<Rightarrow> buffer option"
  greater_than :: "int \<Rightarrow> json \<Rightarrow> bool option"

subsection \<open>\<open>formatLicenseKey\<close>\<close>

definition is_alnum :: "nat \<Rightarrow> bool" where
  "is_alnum c \<longleftrightarrow> (65 \<le> c \<and> c \<le> 90) \<or> (97 \<le> c \<and> c \<le> 122) \<or> (48 \<le> c \<and> c \<le> 57)"

definition to_upper :: "nat \<Rightarrow> nat" where
  \<comment> \<open>\<open>toUpperCase\<close> on the letters and digits that the filter leaves\<close>
  "to_upper c = (if 97 \<le> c \<and> c \<le> 122 then c - 32 else c)"

function parts_loop :: "jsstring \<Rightarrow> nat \<Rightarrow> jsstring list" where
  "parts_loop cleaned i =
     (if i < length cleaned then take 5 (drop i cleaned) # parts_loop cleaned (i + 5) else [])"
  by pat_completeness auto
termination
  by (relation "measure (\<lambda>(cleaned, i). length cleaned - i)") auto

declare parts_loop.simps [simp del]

definition formatLicenseKey :: "jsstring \<Rightarrow> jsstring" where
  "formatLicenseKey key =
     (let cleaned = take 20 (map to_upper (filter is_alnum key))
      in join [45] (parts_loop cleaned 0))"

subsection \<open>\<open>generateLicenseKey\<close>\<close>

text \<open>
  \<open>now\<close> is the value of \<open>Date.now()\<close> and \<open>random\<close> the sixteen bytes of
  \<open>crypto.randomBytes(16)\<close>. The condition \<open>expiresInDays ? \<dots> : null\<close> is false for an
  absent duration and for the duration \<open>0\<close>.
\<close>

definition license_payload ::
  "jsstring \<Rightarrow> int \<Rightarrow> int option \<Rightarrow> int \<Rightarrow> buffer \<Rightarrow> (string \<times> property) list" where
  "license_payload email maxActivations expiresInDays now random =
     [(''email'', VStr email),
      (''maxActivations'', VNum maxActivations),
      (''expiresAt'',
         (case expiresInDays of
            None \<Rightarrow> VNull
          | Some d \<Rightarrow> if d = 0 then VNull else VNum (now + d * 24 * 60 * 60 * 1000))),
      (''issuedAt'', VNum now),
      (''nonce'', VStr (hex_encode random))]"

definition generateLicenseKey ::
  "runtime \<Rightarrow> jsstring \<Rightarrow> int \<Rightarrow> int option \<Rightarrow> int \<Rightarrow> buffer \<Rightarrow> jsstring" where
  "generateLicenseKey R email maxActivations expiresInDays now random =
     (let payloadString = stringify (license_payload email maxActivations expiresInDays now random);
          signature = crypto_sign R (utf8_encode payloadString);
          licenseData = [(''payload'', VStr (base64_encode (utf8_encode payloadString))),
                         (''signature'', VStr (base64_encode signature))];
          licenseKey = base64_encode (utf8_encode (stringify licenseData))
      in formatLicenseKey licenseKey)"

subsection \<open>\<open>validateLicenseKey\<close>\<close>

datatype exn = SyntaxError | TypeError

definition attempt :: "exn + 'a \<Rightarrow> ('a \<Rightarrow> exn + 'b) \<Rightarrow> exn + 'b" where
  \<comment> \<open>sequencing inside a \<open>try\<close> block: the first exception ends the block\<close>
  "attempt r f = (case r of Inl e \<Rightarrow> Inl e | Inr x \<Rightarrow> f x)"

definition parse :: "jsstring \<Rightarrow> exn + json" where
  "parse s = (case JSON_parse s of None \<Rightarrow> Inl SyntaxError | Some v \<Rightarrow> Inr v)"

text \<open>
  Reading a property of \<open>null\<close> throws; an object gives its last member of that name and
  every other value gives \<open>undefined\<close> (\<open>None\<close>) for the names read here.
\<close>

fun get_prop :: "json \<Rightarrow> string \<Rightarrow> exn + json option" where
  "get_prop JNull k = Inl TypeError"
| "get_prop (JObj ms) k = Inr (map_of (rev ms) (js k))"
| "get_prop _ k = Inr None"

fun buffer_from_base64 :: "runtime \<Rightarrow> json option \<Rightarrow> exn + buffer" where
  "buffer_from_base64 R (Some (JStr s)) = Inr (base64_decode s)"
| "buffer_from_base64 R (Some (JArr xs)) =
     (case buffer_from_object R (JArr xs) of None \<Rightarrow> Inl TypeError | Some b \<Rightarrow> Inr b)"
| "buffer_from_base64 R (Some (JObj ms)) =
     (case buffer_from_object R (JObj ms) of None \<Rightarrow> Inl TypeError | Some b \<Rightarrow> Inr b)"
| "buffer_from_base64 R _ = Inl TypeError"

fun truthy :: "json option \<Rightarrow> bool" where
  "truthy None = False"
| "truthy (Some JNull) = False"
| "truthy (Some (JBool b)) = b"
| "truthy (Some (JNum r)) = (r \<noteq> 0)"
| "truthy (Some (JStr s)) = (s \<noteq> [])"
| "truthy (Some _) = True"

fun now_after :: "runtime \<Rightarrow> int \<Rightarrow> json \<Rightarrow> exn + bool" where
  "now_after R now (JNum r) = Inr (r < of_int now)"
| "now_after R now (JBool b) = Inr ((if b then 1 else 0) < now)"
| "now_after R now JNull = Inr (0 < now)"
| "now_after R now v = (case greater_than R now v of None \<Rightarrow> Inl TypeError | Some b \<Rightarrow> Inr b)"

record validation =
  valid :: bool
  payload :: "json option"
  error :: "string option"

definition expired :: "runtime \<Rightarrow> int \<Rightarrow> json option \<Rightarrow> exn + bool" where
  \<comment> \<open>\<open>payload.expiresAt && Date.now() > payload.expiresAt\<close>\<close>
  "expired R now expiresAt =
     (case expiresAt of
        None \<Rightarrow> Inr False
      | Some v \<Rightarrow> if truthy (Some v) then now_after R now v else Inr False)"

text \<open>
  The body of the \<open>try\<close> block in two parts: \<open>check_payload\<close> is what follows the
  signature check (parse the payload, test the expiry, return), \<open>validate_try\<close> the whole.
\<close>

definition check_payload :: "runtime \<Rightarrow> int \<Rightarrow> jsstring \<Rightarrow> exn + validation" where
  "check_payload R now payloadString =
     attempt (parse payloadString) (\<lambda>payload.
     attempt (get_prop payload ''expiresAt'') (\<lambda>expiresAt.
     attempt (expired R now expiresAt) (\<lambda>is_expired.
       if is_expired
       then Inr \<lparr>valid = False, payload = None, error = Some ''License expired''\<rparr>
       else Inr \<lparr>valid = True, payload = Some payload, error = None\<rparr>)))"

definition validate_try :: "runtime \<Rightarrow> jsstring \<Rightarrow> int \<Rightarrow> exn + validation" where
  "validate_try R licenseKey now =
     (let cleanKey = filter (\<lambda>c. c \<noteq> 45) licenseKey
      in attempt (parse (utf8_decode (base64_decode cleanKey))) (\<lambda>licenseData.
         attempt (get_prop licenseData ''payload'') (\<lambda>p.
         attempt (buffer_from_base64 R p) (\<lambda>payloadBytes.
         attempt (get_prop licenseData ''signature'') (\<lambda>s.
         attempt (buffer_from_base64 R s) (\<lambda>signature.
           let payloadString = utf8_decode payloadBytes
           in if \<not> crypto_verify R (utf8_encode payloadString) signature
              then Inr \<lparr>valid = False, payload = None, error = Some ''Invalid signature''\<rparr>
              else check_payload R now payloadString))))))"

definition validateLicenseKey :: "runtime \<Rightarrow> jsstring \<Rightarrow> int \<Rightarrow> validation" where
  "validateLicenseKey R licenseKey now =
     (case validate_try R licenseKey now of
        Inl e \<Rightarrow> \<lparr>valid = False, payload = None, error = Some ''Invalid license key format''\<rparr>
      | Inr r \<Rightarrow> r)"

subsection \<open>Activation tokens\<close>

definition token_data :: "jsstring \<Rightarrow> jsstring \<Rightarrow> int \<Rightarrow> (string \<times> property) list" where
  "token_data licenseKey hardwareId now =
     [(''licenseKey'', VStr licenseKey), (''hardwareId'', VStr hardwareId),
      (''activatedAt'', VNum now)]"

definition createActivationToken :: "runtime \<Rightarrow> jsstring \<Rightarrow> jsstring \<Rightarrow> int \<Rightarrow> jsstring" where
  "createActivationToken R licenseKey hardwareId now =
     (let data = token_data licenseKey hardwareId now;
          signature = crypto_sign R (utf8_encode (stringify data))
      in base64_encode (utf8_encode (stringify
           [(''data'', VStr (base64_encode (utf8_encode (stringify data)))),
            (''signature'', VStr (base64_encode signature))])))"

record token_verification =
  token_valid :: bool
  token_data_of :: "json option"
  token_error :: "string option"

definition verify_try :: "runtime \<Rightarrow> jsstring \<Rightarrow> exn + token_verification" where
  "verify_try R token =
     attempt (parse (utf8_decode (base64_decode token))) (\<lambda>tokenData.
     attempt (get_prop tokenData ''data'') (\<lambda>d.
     attempt (buffer_from_base64 R d) (\<lambda>dataBytes.
     attempt (get_prop tokenData ''signature'') (\<lambda>s.
     attempt (buffer_from_base64 R s) (\<lambda>signature.
       let dataString = utf8_decode dataBytes
       in if \<not> crypto_verify R (utf8_encode dataString) signature
          then Inr \<lparr>token_valid = False, token_data_of = None,
                    token_error = Some ''Invalid activation token''\<rparr>
          else
            attempt (parse dataString) (\<lambda>data.
              Inr \<lparr>token_valid = True, token_data_of = Some data, token_error = None\<rparr>))))))"

definition verifyActivationToken :: "runtime \<Rightarrow> jsstring \<Rightarrow> token_verification" where
  "verifyActivationToken R token =
     (case verify_try R token of
        Inl e \<Rightarrow> \<lparr>token_valid = False, token_data_of = None,
                   token_error = Some ''Invalid token format''\<rparr>
      | Inr r \<Rightarrow> r)"

subsection \<open>The text a key or a token carries\<close>

text \<open>
  The first three steps of \<open>validateLicenseKey\<close> and of \<open>verifyActivationToken\<close>, on
  their own: the text found under \<open>payload\<close> (under \<open>data\<close>) of the decoded string.
\<close>

definition payload_text :: "runtime \<Rightarrow> jsstring \<Rightarrow> exn + jsstring" where
  "payload_text R key =
     attempt (parse (utf8_decode (base64_decode (filter (\<lambda>c. c \<noteq> 45) key)))) (\<lambda>licenseData.
     attempt (get_prop licenseData ''payload'') (\<lambda>p.
     attempt (buffer_from_base64 R p) (\<lambda>payloadBytes. Inr (utf8_decode payloadBytes))))"

definition data_text :: "runtime \<Rightarrow> jsstring \<Rightarrow> exn + jsstring" where
  "data_text R token =
     attempt (parse (utf8_decode (base64_decode token))) (\<lambda>tokenData.
     attempt (get_prop tokenData ''data'') (\<lambda>d.
     attempt (buffer_from_base64 R d) (\<lambda>dataBytes. Inr (utf8_decode dataBytes))))"

subsection \<open>A runtime for examples\<close>

text \<open>
  A small runtime for the closed examples: the signature of a message is the one byte
  of its checksum.
\<close>

definition checksum :: "buffer \<Rightarrow> buffer" where
  "checksum m = [sum_list m mod 256]"

definition toy :: runtime where
  "toy = \<lparr>crypto_sign = checksum, crypto_verify = (\<lambda>m s. s = checksum m),
          buffer_from_object = (\<lambda>v. None), greater_than = (\<lambda>t v. Some False)\<rparr>"

section \<open>The license store (\<open>drizzle/schema.ts\<close>, \<open>server/license-db.ts\<close>)\<close>

datatype license_status = LicenseActive | LicenseExpired | LicenseRevoked

datatype activation_status = ActivationActive | ActivationDeactivated

record license =
  license_id :: nat
  licenseKey :: jsstring
  email :: jsstring
  purchaseId :: "jsstring option"
  maxActivations :: int
  currentActivations :: int
  expiresAt :: "int option"
  license_status :: license_status
  createdAt :: int
  updatedAt :: int

record activation =
  activation_id :: nat
  licenseId :: nat
  hardwareId :: jsstring
  machineName :: "jsstring option"
  os :: "jsstring option"
  activatedAt :: int
  lastSeenAt :: int
  activation_status :: activation_status

text \<open>
  The state of the database: the two tables in insertion order, and whether \<open>getDb()\<close>
  gives a database at all. Timestamps are milliseconds; the \<open>int\<close> columns are not
  bounded in the model.
\<close>

record store =
  available :: bool
  licenses :: "license list"
  activations :: "activation list"

datatype error =
    LicenseNotFound
  | LicenseIs license_status
  | MaximumActivationsReached
  | ActivationNotFound
  | DatabaseNotAvailable
  | DuplicateEntry
  | Unauthorized
  | BadRequest

definition fresh_id :: "nat list \<Rightarrow> nat" where
  \<comment> \<open>\<open>AUTO_INCREMENT\<close> on a table from which no row is ever deleted\<close>
  "fresh_id ids = Suc (foldr max ids 0)"

text \<open>
  \<open>createLicense\<close> inserts a row; the \<open>UNIQUE\<close> constraint on \<open>licenseKey\<close> makes the insert
  fail when the key is already stored. The id and the two timestamps of \<open>row\<close> are
  replaced by the column defaults.
\<close>

definition createLicense :: "int \<Rightarrow> license \<Rightarrow> store \<Rightarrow> error + store" where
  "createLicense now row s =
     (if \<not> available s then Inl DatabaseNotAvailable
      else if \<exists>l \<in> set (licenses s). licenseKey l = licenseKey row then Inl DuplicateEntry
      else Inr (s\<lparr>licenses := licenses s
                 @ [row\<lparr>license_id := fresh_id (map license_id (licenses s)),
                        createdAt := now, updatedAt := now\<rparr>]\<rparr>))"

definition getLicenseByKey :: "store \<Rightarrow> jsstring \<Rightarrow> license option" where
  "getLicenseByKey s key =
     (if \<not> available s then None else find (\<lambda>l. licenseKey l = key) (licenses s))"

definition incrementActivationCount :: "int \<Rightarrow> nat \<Rightarrow> store \<Rightarrow> error + store" where
  "incrementActivationCount now lid s =
     (if \<not> available s then Inl DatabaseNotAvailable
      else Inr (s\<lparr>licenses :=
             map (\<lambda>l. if license_id l = lid
                       then l\<lparr>currentActivations := currentActivations l + 1, updatedAt := now\<rparr>
                       else l) (licenses s)\<rparr>))"

definition decrementActivationCount :: "int \<Rightarrow> nat \<Rightarrow> store \<Rightarrow> error + store" where
  "decrementActivationCount now lid s =
     (if \<not> available s then Inl DatabaseNotAvailable
      else Inr (s\<lparr>licenses :=
             map (\<lambda>l. if license_id l = lid
                       then l\<lparr>currentActivations := currentActivations l - 1, updatedAt := now\<rparr>
                       else l) (licenses s)\<rparr>))"

definition createActivation :: "int \<Rightarrow> activation \<Rightarrow> store \<Rightarrow> error + store" where
  "createActivation now row s =
     (if \<not> available s then Inl DatabaseNotAvailable
      else Inr (s\<lparr>activations := activations s
                 @ [row\<lparr>activation_id := fresh_id (map activation_id (activations s)),
                        activatedAt := now, lastSeenAt := now\<rparr>]\<rparr>))"

definition getActivationByHardwareId :: "store \<Rightarrow> nat \<Rightarrow> jsstring \<Rightarrow> activation option" where
  "getActivationByHardwareId s lid hw =
     (if \<not> available s then None
      else find (\<lambda>a. licenseId a = lid \<and> hardwareId a = hw
                      \<and> activation_status a = ActivationActive) (activations s))"

definition deactivateActivation :: "nat \<Rightarrow> store \<Rightarrow> error + store" where
  "deactivateActivation aid s =
     (if \<not> available s then Inl DatabaseNotAvailable
      else Inr (s\<lparr>activations :=
             map (\<lambda>a. if activation_id a = aid
                       then a\<lparr>activation_status := ActivationDeactivated\<rparr> else a)
                 (activations s)\<rparr>))"

definition updateLastSeen :: "int \<Rightarrow> nat \<Rightarrow> store \<Rightarrow> error + store" where
  "updateLastSeen now aid s =
     (if \<not> available s then Inl DatabaseNotAvailable
      else Inr (s\<lparr>activations :=
             map (\<lambda>a. if activation_id a = aid then a\<lparr>lastSeenAt := now\<rparr> else a)
                 (activations s)\<rparr>))"

section \<open>The licensing procedures (\<open>server/routers.ts\<close>)\<close>

text \<open>
  A procedure takes the store and gives its outcome together with the store it leaves
  behind; a thrown \<open>Error\<close> is an \<open>Inl\<close>. \<open>now\<close> is the clock of the call.

  What runs before the handler of \<open>generate\<close> is a parameter of the model:
  \<open>signed_in\<close> says whether \<open>protectedProcedure\<close> (defined in \<open>server/_core/trpc\<close>) lets
  the call through, and \<open>is_email\<close> is the check \<open>z.string().email()\<close> of the zod library
  that the input schema applies to the \<open>email\<close> field. A call that is stopped there throws before the handler runs and
  leaves the store alone. The other fields of the schema are a number with the default
  \<open>1\<close> (\<open>maxAct\<close> is the value after the default), an optional number and an optional
  string; the typed arguments of the model meet them. The schemas of \<open>activate\<close> and
  \<open>deactivate\<close>, which are public procedures, ask for strings only.
\<close>

record entry =
  signed_in :: bool
  is_email :: "jsstring \<Rightarrow> bool"

definition generate ::
  "entry \<Rightarrow> runtime \<Rightarrow> int \<Rightarrow> buffer \<Rightarrow> jsstring \<Rightarrow> int \<Rightarrow> int option \<Rightarrow> jsstring option
     \<Rightarrow> store \<Rightarrow> (error + jsstring) \<times> store" where
  "generate E R now random mail maxAct expiresInDays purchase s =
     (if \<not> signed_in E then (Inl Unauthorized, s)
      else if \<not> is_email E mail then (Inl BadRequest, s)
      else
        (let key = generateLicenseKey R mail maxAct expiresInDays now random
         in case createLicense now
                \<lparr>license_id = 0, licenseKey = key, email = mail, purchaseId = purchase,
                 maxActivations = maxAct, currentActivations = 0,
                 expiresAt = (case expiresInDays of
                                None \<Rightarrow> None
                              | Some d \<Rightarrow> if d = 0 then None
                                          else Some (now + d * 24 * 60 * 60 * 1000)),
                 license_status = LicenseActive, createdAt = now, updatedAt = now\<rparr> s of
              Inl e \<Rightarrow> (Inl e, s)
            | Inr s' \<Rightarrow> (Inr key, s')))"

record activate_response =
  success :: bool
  alreadyActivated :: bool
  activationToken :: "jsstring option"

definition activate ::
  "runtime \<Rightarrow> int \<Rightarrow> jsstring \<Rightarrow> jsstring \<Rightarrow> jsstring option \<Rightarrow> jsstring option \<Rightarrow> store
     \<Rightarrow> (error + activate_response) \<times> store" where
  "activate R now key hw mname osname s =
     (case getLicenseByKey s key of
        None \<Rightarrow> (Inl LicenseNotFound, s)
      | Some license \<Rightarrow>
          if license_status license \<noteq> LicenseActive
          then (Inl (LicenseIs (license_status license)), s)
          else
            (case getActivationByHardwareId s (license_id license) hw of
               Some existingActivation \<Rightarrow>
                 (case updateLastSeen now (activation_id existingActivation) s of
                    Inl e \<Rightarrow> (Inl e, s)
                  | Inr s1 \<Rightarrow>
                      (Inr \<lparr>success = True, alreadyActivated = True, activationToken = None\<rparr>,
                       s1))
             | None \<Rightarrow>
                 if maxActivations license \<le> currentActivations license
                 then (Inl MaximumActivationsReached, s)
                 else
                   (case createActivation now
                           \<lparr>activation_id = 0, licenseId = license_id license,
                            hardwareId = hw, machineName = mname, os = osname,
                            activatedAt = now, lastSeenAt = now,
                            activation_status = ActivationActive\<rparr> s of
                      Inl e \<Rightarrow> (Inl e, s)
                    | Inr s1 \<Rightarrow>
                        (case incrementActivationCount now (license_id license) s1 of
                           Inl e \<Rightarrow> (Inl e, s1)
                         | Inr s2 \<Rightarrow>
                             (Inr \<lparr>success = True, alreadyActivated = False,
                                   activationToken =
                                     Some (createActivationToken R key hw now)\<rparr>,
                              s2)))))"

definition deactivate ::
  "int \<Rightarrow> jsstring \<Rightarrow> jsstring \<Rightarrow> store \<Rightarrow> (error + bool) \<times> store" where
  "deactivate now key hw s =
     (case getLicenseByKey s key of
        None \<Rightarrow> (Inl LicenseNotFound, s)
      | Some license \<Rightarrow>
          (case getActivationByHardwareId s (license_id license) hw of
             None \<Rightarrow> (Inl ActivationNotFound, s)
           | Some activation \<Rightarrow>
               (case deactivateActivation (activation_id activation) s of
                  Inl e \<Rightarrow> (Inl e, s)
                | Inr s1 \<Rightarrow>
                    (case decrementActivationCount now (license_id license) s1 of
                       Inl e \<Rightarrow> (Inl e, s1)
                     | Inr s2 \<Rightarrow> (Inr True, s2)))))"

subsection \<open>\<open>activate\<close> one \<open>await\<close> at a time\<close>

text \<open>
  The handler gives up control at every \<open>await\<close>. \<open>activate_step\<close> runs it from one
  \<open>await\<close> to the next: the database operation awaited and the code up to the next one.
  The license row read by the first query stays in a local variable of the handler.
\<close>

datatype activate_pc =
    AwaitLicense
  | AwaitExisting license
  | AwaitLastSeen activation
  | AwaitCreate license
  | AwaitIncrement license
  | Returned "error + activate_response"

fun activate_step ::
  "runtime \<Rightarrow> int \<Rightarrow> jsstring \<Rightarrow> jsstring \<Rightarrow> jsstring option \<Rightarrow> jsstring option
     \<Rightarrow> activate_pc \<Rightarrow> store \<Rightarrow> activate_pc \<times> store" where
  "activate_step R now key hw mname osname AwaitLicense s =
     (case getLicenseByKey s key of
        None \<Rightarrow> (Returned (Inl LicenseNotFound), s)
      | Some license \<Rightarrow>
          if license_status license \<noteq> LicenseActive
          then (Returned (Inl (LicenseIs (license_status license))), s)
          else (AwaitExisting license, s))"
| "activate_step R now key hw mname osname (AwaitExisting license) s =
     (case getActivationByHardwareId s (license_id license) hw of
        Some existingActivation \<Rightarrow> (AwaitLastSeen existingActivation, s)
      | None \<Rightarrow>
          if maxActivations license \<le> currentActivations license
          then (Returned (Inl MaximumActivationsReached), s)
          else (AwaitCreate license, s))"
| "activate_step R now key hw mname osname (AwaitLastSeen existingActivation) s =
     (case updateLastSeen now (activation_id existingActivation) s of
        Inl e \<Rightarrow> (Returned (Inl e), s)
      | Inr s1 \<Rightarrow>
          (Returned (Inr \<lparr>success = True, alreadyActivated = True, activationToken = None\<rparr>),
           s1))"
| "activate_step R now key hw mname osname (AwaitCreate license) s =
     (case createActivation now
             \<lparr>activation_id = 0, licenseId = license_id license,
              hardwareId = hw, machineName = mname, os = osname,
              activatedAt = now, lastSeenAt = now,
              activation_status = ActivationActive\<rparr> s of
        Inl e \<Rightarrow> (Returned (Inl e), s)
      | Inr s1 \<Rightarrow> (AwaitIncrement license, s1))"
| "activate_step R now key hw mname osname (AwaitIncrement license) s =
     (case incrementActivationCount now (license_id license) s of
        Inl e \<Rightarrow> (Returned (Inl e), s)
      | Inr s1 \<Rightarrow>
          (Returned (Inr \<lparr>success = True, alreadyActivated = False,
                          activationToken = Some (createActivationToken R key hw now)\<rparr>),
           s1))"
| "activate_step R now key hw mname osname (Returned r) s = (Returned r, s)"

text \<open>
  Two handlers over one store: the schedule says which of the two takes the next step.
\<close>

fun interleave ::
  "('p \<Rightarrow> store \<Rightarrow> 'p \<times> store) \<Rightarrow> ('q \<Rightarrow> store \<Rightarrow> 'q \<times> store) \<Rightarrow> bool list
     \<Rightarrow> 'p \<times> 'q \<times> store \<Rightarrow> 'p \<times> 'q \<times> store" where
  "interleave f g [] c = c"
| "interleave f g (True # bs) (p, q, s) =
     (case f p s of (p', s') \<Rightarrow> interleave f g bs (p', q, s'))"
| "interleave f g (False # bs) (p, q, s) =
     (case g q s of (q', s') \<Rightarrow> interleave f g bs (p, q', s'))"

text \<open>Calls made one after the other, for a list of hardware ids.\<close>

fun activate_each ::
  "runtime \<Rightarrow> int \<Rightarrow> jsstring \<Rightarrow> jsstring list \<Rightarrow> store
     \<Rightarrow> (error + activate_response) list \<times> store" where
  "activate_each R now key [] s = ([], s)"
| "activate_each R now key (hw # hws) s =
     (case activate R now key hw None None s of
        (r, s1) \<Rightarrow> (case activate_each R now key hws s1 of (rs, s2) \<Rightarrow> (r # rs, s2)))"

subsection \<open>The invariants of the store\<close>

definition active_count :: "store \<Rightarrow> nat \<Rightarrow> nat" where
  "active_count s lid =
     length (filter (\<lambda>a. licenseId a = lid \<and> activation_status a = ActivationActive)
               (activations s))"

definition pair_count :: "store \<Rightarrow> nat \<Rightarrow> jsstring \<Rightarrow> nat" where
  "pair_count s lid hw =
     length (filter (\<lambda>a. licenseId a = lid \<and> hardwareId a = hw
                          \<and> activation_status a = ActivationActive) (activations s))"

definition counts_ok :: "store \<Rightarrow> bool" where
  "counts_ok s \<longleftrightarrow>
     (\<forall>l \<in> set (licenses s).
        currentActivations l = int (active_count s (license_id l))
        \<and> 0 \<le> currentActivations l \<and> currentActivations l \<le> maxActivations l)"

definition keys_ok :: "store \<Rightarrow> bool" where
  \<comment> \<open>the primary keys, and every activation belongs to a stored license\<close>
  "keys_ok s \<longleftrightarrow>
     distinct (map license_id (licenses s)) \<and> distinct (map activation_id (activations s))
     \<and> (\<forall>a \<in> set (activations s). licenseId a \<in> license_id ` set (licenses s))"


text \<open>
  At most one active activation for every license and machine; and the invariant of the
  store as a whole.
\<close>

definition at_most_one :: "store \<Rightarrow> bool" where
  "at_most_one s \<longleftrightarrow> (\<forall>lid hw. pair_count s lid hw \<le> 1)"

definition store_inv :: "store \<Rightarrow> bool" where
  "store_inv s \<longleftrightarrow> keys_ok s \<and> counts_ok s"

subsection \<open>The writes in closed form\<close>

text \<open>
  The row updates that the store operations apply, the row that \<open>activate\<close> inserts and
  the two responses it gives, under names of their own.
\<close>

definition touch :: "int \<Rightarrow> nat \<Rightarrow> activation \<Rightarrow> activation" where
  "touch now aid a = (if activation_id a = aid then a\<lparr>lastSeenAt := now\<rparr> else a)"

definition bump :: "int \<Rightarrow> int \<Rightarrow> nat \<Rightarrow> license \<Rightarrow> license" where
  "bump now d lid l =
     (if license_id l = lid
      then l\<lparr>currentActivations := currentActivations l + d, updatedAt := now\<rparr> else l)"

definition retire :: "nat \<Rightarrow> activation \<Rightarrow> activation" where
  "retire aid a = (if activation_id a = aid then a\<lparr>activation_status := ActivationDeactivated\<rparr> else a)"

definition new_activation :: "int \<Rightarrow> nat \<Rightarrow> jsstring \<Rightarrow> jsstring option \<Rightarrow> jsstring option \<Rightarrow> store \<Rightarrow> activation" where
  "new_activation now lid hw mname osname s =
     \<lparr>activation_id = fresh_id (map activation_id (activations s)), licenseId = lid,
      hardwareId = hw, machineName = mname, os = osname, activatedAt = now, lastSeenAt = now,
      activation_status = ActivationActive\<rparr>"

definition activated :: "runtime \<Rightarrow> int \<Rightarrow> jsstring \<Rightarrow> jsstring \<Rightarrow> activate_response" where
  "activated R now key hw =
     \<lparr>success = True, alreadyActivated = False,
      activationToken = Some (createActivationToken R key hw now)\<rparr>"

definition already :: activate_response where
  "already = \<lparr>success = True, alreadyActivated = True, activationToken = None\<rparr>"

section \<open>Example data\<close>

text \<open>
  The key that \<open>generateLicenseKey\<close> returns, a license stored under it for one machine,
  and stores that hold this license or nothing. \<open>empty_key\<close> carries the payload \<open>{}\<close>
  with its checksum as signature, \<open>forged_key\<close> the same payload with another
  signature, and \<open>empty_token\<close> is the token for the data \<open>{}\<close>.
\<close>

definition issued_key :: jsstring where
  "issued_key = js ''EYJWY-XLSB2-FKIJO-IZXLK''"

definition license1 :: license where
  "license1 =
     \<lparr>license_id = 1, licenseKey = issued_key, email = js ''a@example.com'',
      purchaseId = None, maxActivations = 1, currentActivations = 0, expiresAt = None,
      license_status = LicenseActive, createdAt = 1000, updatedAt = 1000\<rparr>"

definition store1 :: store where
  "store1 = \<lparr>available = True, licenses = [license1], activations = []\<rparr>"

definition revoked_store :: store where
  "revoked_store = store1\<lparr>licenses := [license1\<lparr>license_status := LicenseRevoked\<rparr>]\<rparr>"

definition no_store :: store where
  "no_store = \<lparr>available = True, licenses = [], activations = []\<rparr>"

text \<open>
  A signed-in caller, with a stand-in for the e-mail check of the schema that accepts
  the strings with an \<open>@\<close> in them: it accepts \<open>a@example.com\<close> and rejects
  \<open>not-an-email\<close>, as the schema does.
\<close>

definition admin :: entry where
  "admin = \<lparr>signed_in = True, is_email = (\<lambda>s. 64 \<in> set s)\<rparr>"

definition empty_key :: jsstring where
  "empty_key = base64_encode (utf8_encode (js ''{\"payload\":\"e30=\",\"signature\":\"+A==\"}''))"

definition forged_key :: jsstring where
  "forged_key = base64_encode (utf8_encode (js ''{\"payload\":\"e30=\",\"signature\":\"AA==\"}''))"

definition empty_token :: jsstring where
  "empty_token = base64_encode (utf8_encode (js ''{\"data\":\"e30=\",\"signature\":\"+A==\"}''))"

definition bad_format :: validation where
  "bad_format = \<lparr>valid = False, payload = None, error = Some ''Invalid license key format''\<rparr>"

definition bad_token :: token_verification where
  "bad_token =
     \<lparr>token_valid = False, token_data_of = None, token_error = Some ''Invalid token format''\<rparr>"

text \<open>
  Two calls of \<open>activate\<close> for \<open>license1\<close>, from the machines \<open>H1\<close> and \<open>H2\<close>, which take
  turns: both read the license and look for their activation before either writes.
\<close>

definition two_calls :: "activate_pc \<times> activate_pc \<times> store" where
  "two_calls =
     interleave (activate_step toy 2000 issued_key (js ''H1'') None None)
       (activate_step toy 2000 issued_key (js ''H2'') None None)
       [True, False, True, False, True, True, False, False]
       (AwaitLicense, AwaitLicense, store1)"

section \<open>Properties of the generator\<close>

lemma stringify_payload_head:
  "\<exists>rest. stringify (license_payload mail m x now r) = 123 # 34 # 101 # rest"
  by (simp add: stringify_def license_payload_def json_quote_def js_def escape_unit_def)

lemma base64_payload_head:
  "\<exists>rest. base64_encode (utf8_encode (123 # 34 # 101 # xs)) = 101 # 121 # 74 # rest"
  by (simp add: b64char_def)

lemma license_data_head:
  "\<exists>rest. utf8_encode (stringify [(''payload'', VStr (101 # 121 # 74 # p)), (''signature'', VStr s)])
     = [123, 34, 112, 97, 121, 108, 111, 97, 100, 34, 58, 34, 101, 121, 74] @ rest"
  by (simp add: stringify_def json_quote_def js_def escape_unit_def)

lemma base64_license_head:
  "base64_encode ([123, 34, 112, 97, 121, 108, 111, 97, 100, 34, 58, 34, 101, 121, 74] @ rest)
     = js ''eyJwYXlsb2FkIjoiZXlK'' @ base64_encode rest"
  by (simp add: b64char_def js_def)

lemma parts_loop_20:
  "parts_loop [a1,a2,a3,a4,a5,b1,b2,b3,b4,b5,c1,c2,c3,c4,c5,d1,d2,d3,d4,d5] 0
     = [[a1,a2,a3,a4,a5],[b1,b2,b3,b4,b5],[c1,c2,c3,c4,c5],[d1,d2,d3,d4,d5]]"
  by (simp add: parts_loop.simps)

lemma format_head:
  "formatLicenseKey (js ''eyJwYXlsb2FkIjoiZXlK'' @ rest) = js ''EYJWY-XLSB2-FKIJO-IZXLK''"
  by (simp add: formatLicenseKey_def js_def is_alnum_def to_upper_def parts_loop_20)

lemma generateLicenseKey_constant:
  "generateLicenseKey R mail m x now r = issued_key"
proof -
  obtain r1 where 1: "stringify (license_payload mail m x now r) = 123 # 34 # 101 # r1"
    using stringify_payload_head by blast
  obtain r2 where 2: "base64_encode (utf8_encode (123 # 34 # 101 # r1)) = 101 # 121 # 74 # r2"
    using base64_payload_head by blast
  obtain r3 where 3: "utf8_encode (stringify [(''payload'', VStr (101 # 121 # 74 # r2)),
        (''signature'', VStr (base64_encode (crypto_sign R (utf8_encode (123 # 34 # 101 # r1)))))])
     = [123, 34, 112, 97, 121, 108, 111, 97, 100, 34, 58, 34, 101, 121, 74] @ r3"
    using license_data_head by blast
  show ?thesis
    unfolding generateLicenseKey_def Let_def 1 2 3 base64_license_head format_head issued_key_def ..
qed

lemma validate_issued: "validateLicenseKey R issued_key now = bad_format"
  by (simp add: issued_key_def bad_format_def validateLicenseKey_def validate_try_def js_def base64_decode_def unbase64_def
      List.map_filter_simps utf8_step_def continuation_def second_ok_def parse_def JSON_parse_def
      attempt_def is_space_def is_digit_def)


lemma attempt_simps [simp]:
  "attempt (Inl e) f = Inl e" "attempt (Inr x) f = f x"
  by (simp_all add: attempt_def)

lemma attempt_Inr_iff: "attempt r f = Inr y \<longleftrightarrow> (\<exists>x. r = Inr x \<and> f x = Inr y)"
  by (cases r) auto

lemma validate_valid_payload:
  assumes "valid (validateLicenseKey R key now)"
  shows "\<exists>text p. payload_text R key = Inr text \<and> JSON_parse text = Some p
           \<and> validateLicenseKey R key now = \<lparr>valid = True, payload = Some p, error = None\<rparr>"
proof -
  from assms obtain r where r: "validate_try R key now = Inr r" and v: "valid r"
    by (auto simp: validateLicenseKey_def split: sum.splits)
  from r obtain ld p pb s sg where
    1: "parse (utf8_decode (base64_decode (filter (\<lambda>c. c \<noteq> 45) key))) = Inr ld"
    and 2: "get_prop ld ''payload'' = Inr p" and 3: "buffer_from_base64 R p = Inr pb"
    and 4: "get_prop ld ''signature'' = Inr s" and 5: "buffer_from_base64 R s = Inr sg"
    and 6: "(if \<not> crypto_verify R (utf8_encode (utf8_decode pb)) sg
              then Inr \<lparr>valid = False, payload = None, error = Some ''Invalid signature''\<rparr>
              else check_payload R now (utf8_decode pb)) = Inr r"
    unfolding validate_try_def Let_def attempt_Inr_iff by blast
  from 6 v obtain pl where 7: "parse (utf8_decode pb) = Inr pl"
    and 8: "r = \<lparr>valid = True, payload = Some pl, error = None\<rparr>"
    by (auto simp: check_payload_def attempt_Inr_iff split: if_splits)
  from 7 have "JSON_parse (utf8_decode pb) = Some pl"
    by (auto simp: parse_def split: option.splits)
  moreover from 1 2 3 have "payload_text R key = Inr (utf8_decode pb)"
    by (simp add: payload_text_def)
  moreover from r 8 have "validateLicenseKey R key now = \<lparr>valid = True, payload = Some pl, error = None\<rparr>"
    by (simp add: validateLicenseKey_def)
  ultimately show ?thesis by blast
qed

lemma validate_invalid_error:
  assumes "\<not> valid (validateLicenseKey R key now)"
  shows "payload (validateLicenseKey R key now) = None
         \<and> error (validateLicenseKey R key now)
             \<in> {Some ''Invalid license key format'', Some ''Invalid signature'', Some ''License expired''}"
proof (cases "validate_try R key now")
  case (Inl e)
  then show ?thesis by (simp add: validateLicenseKey_def)
next
  case (Inr r)
  with assms have v: "\<not> valid r" by (simp add: validateLicenseKey_def)
  from Inr have "valid r \<or> r = \<lparr>valid = False, payload = None, error = Some ''Invalid signature''\<rparr>
      \<or> r = \<lparr>valid = False, payload = None, error = Some ''License expired''\<rparr>"
    unfolding validate_try_def check_payload_def Let_def
    by (auto simp: attempt_Inr_iff split: if_splits)
  with v Inr show ?thesis by (auto simp: validateLicenseKey_def)
qed


lemma verify_valid_data:
  assumes "token_valid (verifyActivationToken R tok)"
  shows "\<exists>text d. data_text R tok = Inr text \<and> JSON_parse text = Some d
           \<and> verifyActivationToken R tok
               = \<lparr>token_valid = True, token_data_of = Some d, token_error = None\<rparr>"
proof -
  from assms obtain r where r: "verify_try R tok = Inr r" and v: "token_valid r"
    by (auto simp: verifyActivationToken_def split: sum.splits)
  from r obtain td d db s sg where
    1: "parse (utf8_decode (base64_decode tok)) = Inr td"
    and 2: "get_prop td ''data'' = Inr d" and 3: "buffer_from_base64 R d = Inr db"
    and 4: "get_prop td ''signature'' = Inr s" and 5: "buffer_from_base64 R s = Inr sg"
    and 6: "(if \<not> crypto_verify R (utf8_encode (utf8_decode db)) sg
              then Inr \<lparr>token_valid = False, token_data_of = None,
                        token_error = Some ''Invalid activation token''\<rparr>
              else attempt (parse (utf8_decode db)) (\<lambda>data.
                     Inr \<lparr>token_valid = True, token_data_of = Some data, token_error = None\<rparr>))
            = Inr r"
    unfolding verify_try_def Let_def attempt_Inr_iff by blast
  from 6 v obtain dv where 7: "parse (utf8_decode db) = Inr dv"
    and 8: "r = \<lparr>token_valid = True, token_data_of = Some dv, token_error = None\<rparr>"
    by (auto simp: attempt_Inr_iff split: if_splits)
  from 7 have "JSON_parse (utf8_decode db) = Some dv"
    by (auto simp: parse_def split: option.splits)
  moreover from 1 2 3 have "data_text R tok = Inr (utf8_decode db)"
    by (simp add: data_text_def)
  moreover from r 8 have "verifyActivationToken R tok
      = \<lparr>token_valid = True, token_data_of = Some dv, token_error = None\<rparr>"
    by (simp add: verifyActivationToken_def)
  ultimately show ?thesis by blast
qed

lemma verify_invalid_error:
  assumes "\<not> token_valid (verifyActivationToken R tok)"
  shows "token_data_of (verifyActivationToken R tok) = None
         \<and> token_error (verifyActivationToken R tok)
             \<in> {Some ''Invalid token format'', Some ''Invalid activation token''}"
proof (cases "verify_try R tok")
  case (Inl e)
  then show ?thesis by (simp add: verifyActivationToken_def)
next
  case (Inr r)
  with assms have v: "\<not> token_valid r" by (simp add: verifyActivationToken_def)
  from Inr have "token_valid r
      \<or> r = \<lparr>token_valid = False, token_data_of = None,
              token_error = Some ''Invalid activation token''\<rparr>"
    unfolding verify_try_def Let_def
    by (auto simp: attempt_Inr_iff split: if_splits)
  with v Inr show ?thesis by (auto simp: verifyActivationToken_def)
qed

section \<open>Properties of the store operations\<close>

lemma available_createActivation:
  "createActivation now row s = Inr s1 \<Longrightarrow> available s1 = available s"
  by (auto simp: createActivation_def split: if_splits)

lemma available_deactivateActivation:
  "deactivateActivation aid s = Inr s1 \<Longrightarrow> available s1 = available s"
  by (auto simp: deactivateActivation_def split: if_splits)

lemma getLicenseByKey_available: "getLicenseByKey s key = Some l \<Longrightarrow> available s"
  by (auto simp: getLicenseByKey_def split: if_splits)

lemma activate_failure_keeps_store:
  assumes "fst (activate R now key hw mname osname s) = Inl e"
  shows "snd (activate R now key hw mname osname s) = s"
proof (cases "getLicenseByKey s key")
  case None
  then show ?thesis by (simp add: activate_def)
next
  case (Some l)
  then have av: "available s" by (rule getLicenseByKey_available)
  then show ?thesis
    using assms Some
    by (auto simp: activate_def updateLastSeen_def createActivation_def
        incrementActivationCount_def split: option.splits if_splits)
qed

lemma deactivate_failure_keeps_store:
  assumes "fst (deactivate now key hw s) = Inl e"
  shows "snd (deactivate now key hw s) = s"
proof (cases "getLicenseByKey s key")
  case None
  then show ?thesis by (simp add: deactivate_def)
next
  case (Some l)
  then have av: "available s" by (rule getLicenseByKey_available)
  then show ?thesis
    using assms Some
    by (auto simp: deactivate_def deactivateActivation_def decrementActivationCount_def
        split: option.splits if_splits)
qed

lemma find_map_same: "(\<And>x. P (f x) = P x) \<Longrightarrow> find P (map f xs) = map_option f (find P xs)"
  by (induction xs) auto

lemma find_snoc: "find P (xs @ [y]) = (case find P xs of None \<Rightarrow> (if P y then Some y else None) | Some x \<Rightarrow> Some x)"
  by (induction xs) auto

lemma find_in_set: "find P xs = Some x \<Longrightarrow> x \<in> set xs \<and> P x"
  by (induction xs) (auto split: if_splits)

lemma filter_map_same: "(\<And>x. P (f x) = P x) \<Longrightarrow> length (filter P (map f xs)) = length (filter P xs)"
  by (induction xs) auto

lemma activate_again:
  assumes "getLicenseByKey s key = Some l" and "license_status l = LicenseActive"
    and "getActivationByHardwareId s (license_id l) hw = Some a"
  shows "activate R now key hw mname osname s
         = (Inr already, s\<lparr>activations := map (touch now (activation_id a)) (activations s)\<rparr>)"
proof -
  from assms(1) have "available s" by (rule getLicenseByKey_available)
  with assms show ?thesis
    by (simp add: activate_def updateLastSeen_def already_def touch_def [abs_def])
qed

lemma activate_new:
  assumes "getLicenseByKey s key = Some l" and "license_status l = LicenseActive"
    and "getActivationByHardwareId s (license_id l) hw = None"
    and "currentActivations l < maxActivations l"
  shows "activate R now key hw mname osname s
         = (Inr (activated R now key hw),
            s\<lparr>activations := activations s @ [new_activation now (license_id l) hw mname osname s],
              licenses := map (bump now 1 (license_id l)) (licenses s)\<rparr>)"
proof -
  from assms(1) have "available s" by (rule getLicenseByKey_available)
  with assms show ?thesis
    by (simp add: activate_def createActivation_def incrementActivationCount_def activated_def
        new_activation_def bump_def [abs_def])
qed

lemma activate_full:
  assumes "getLicenseByKey s key = Some l" and "license_status l = LicenseActive"
    and "getActivationByHardwareId s (license_id l) hw = None"
    and "maxActivations l \<le> currentActivations l"
  shows "activate R now key hw mname osname s = (Inl MaximumActivationsReached, s)"
  using assms by (simp add: activate_def)

lemma deactivate_found:
  assumes "getLicenseByKey s key = Some l"
    and "getActivationByHardwareId s (license_id l) hw = Some a"
  shows "deactivate now key hw s
         = (Inr True,
            s\<lparr>activations := map (retire (activation_id a)) (activations s),
              licenses := map (bump now (- 1) (license_id l)) (licenses s)\<rparr>)"
proof -
  from assms(1) have "available s" by (rule getLicenseByKey_available)
  with assms show ?thesis
    by (simp add: deactivate_def deactivateActivation_def decrementActivationCount_def
        retire_def [abs_def] bump_def [abs_def])
qed

text \<open>The cases of a call of \<open>activate\<close>.\<close>

lemma activate_cases:
  obtains (absent) "getLicenseByKey s key = None"
      "activate R now key hw mname osname s = (Inl LicenseNotFound, s)"
    | (inactive) l where "getLicenseByKey s key = Some l" "license_status l \<noteq> LicenseActive"
      "activate R now key hw mname osname s = (Inl (LicenseIs (license_status l)), s)"
    | (again) l a where "getLicenseByKey s key = Some l" "license_status l = LicenseActive"
      "getActivationByHardwareId s (license_id l) hw = Some a"
      "activate R now key hw mname osname s
       = (Inr already, s\<lparr>activations := map (touch now (activation_id a)) (activations s)\<rparr>)"
    | (full) l where "getLicenseByKey s key = Some l" "license_status l = LicenseActive"
      "getActivationByHardwareId s (license_id l) hw = None"
      "maxActivations l \<le> currentActivations l"
      "activate R now key hw mname osname s = (Inl MaximumActivationsReached, s)"
    | (new) l where "getLicenseByKey s key = Some l" "license_status l = LicenseActive"
      "getActivationByHardwareId s (license_id l) hw = None"
      "currentActivations l < maxActivations l"
      "activate R now key hw mname osname s
       = (Inr (activated R now key hw),
          s\<lparr>activations := activations s @ [new_activation now (license_id l) hw mname osname s],
            licenses := map (bump now 1 (license_id l)) (licenses s)\<rparr>)"
proof (cases "getLicenseByKey s key")
  case None
  then show ?thesis using absent by (simp add: activate_def)
next
  case (Some l)
  show ?thesis
  proof (cases "license_status l = LicenseActive")
    case False
    with Some show ?thesis using inactive [of l] by (simp add: activate_def)
  next
    case True
    show ?thesis
    proof (cases "getActivationByHardwareId s (license_id l) hw")
      case (Some a)
      with \<open>getLicenseByKey s key = Some l\<close> True show ?thesis
        using again [of l a] activate_again by blast
    next
      case None
      show ?thesis
      proof (cases "currentActivations l < maxActivations l")
        case True
        with \<open>getLicenseByKey s key = Some l\<close> \<open>license_status l = LicenseActive\<close> None
        show ?thesis using new [of l] activate_new by blast
      next
        case False
        then have "maxActivations l \<le> currentActivations l" by simp
        with \<open>getLicenseByKey s key = Some l\<close> \<open>license_status l = LicenseActive\<close> None
        show ?thesis using full [of l] activate_full by blast
      qed
    qed
  qed
qed


lemma getLicenseByKey_touch [simp]:
  "getLicenseByKey (s\<lparr>activations := xs\<rparr>) key = getLicenseByKey s key"
  by (simp add: getLicenseByKey_def)

lemma getActivation_touch:
  "getActivationByHardwareId (s\<lparr>activations := map (touch now aid) (activations s)\<rparr>) lid hw
     = map_option (touch now aid) (getActivationByHardwareId s lid hw)"
  by (simp add: getActivationByHardwareId_def find_map_same touch_def)

lemma getLicenseByKey_bump:
  "getLicenseByKey (s\<lparr>activations := xs, licenses := map (bump now d lid) (licenses s)\<rparr>) key
     = map_option (bump now d lid) (getLicenseByKey s key)"
  by (simp add: getLicenseByKey_def find_map_same bump_def)

lemma getActivation_new:
  assumes "available s"
  shows "getActivationByHardwareId
           (s\<lparr>activations := activations s @ [new_activation now lid hw mname osname s],
              licenses := ls\<rparr>) lid' hw'
         = (case getActivationByHardwareId s lid' hw' of
              None \<Rightarrow> if lid' = lid \<and> hw' = hw
                       then Some (new_activation now lid hw mname osname s) else None
            | Some a \<Rightarrow> Some a)"
  using assms
  by (auto simp: getActivationByHardwareId_def find_snoc new_activation_def split: option.splits)

lemma pair_count_touch:
  "pair_count (s\<lparr>activations := map (touch now aid) (activations s)\<rparr>) lid hw = pair_count s lid hw"
proof -
  have "length (filter (\<lambda>a. licenseId a = lid \<and> hardwareId a = hw
                            \<and> activation_status a = ActivationActive) (map (touch now aid) xs))
        = length (filter (\<lambda>a. licenseId a = lid \<and> hardwareId a = hw
                              \<and> activation_status a = ActivationActive) xs)" for xs
    by (induction xs) (simp_all add: touch_def del: length_filter_map)
  then show ?thesis
    by (simp add: pair_count_def del: length_filter_map)
qed

lemma pair_count_retire:
  "pair_count (s\<lparr>activations := map (retire aid) (activations s), licenses := ls\<rparr>) lid hw
     \<le> pair_count s lid hw"
proof -
  have "length (filter (\<lambda>a. licenseId a = lid \<and> hardwareId a = hw
                            \<and> activation_status a = ActivationActive) (map (retire aid) xs))
        \<le> length (filter (\<lambda>a. licenseId a = lid \<and> hardwareId a = hw
                              \<and> activation_status a = ActivationActive) xs)" for xs
    by (induction xs) (simp_all add: retire_def le_SucI del: length_filter_map)
  then show ?thesis
    by (simp add: pair_count_def del: length_filter_map)
qed

lemma pair_count_zero:
  "available s \<Longrightarrow> getActivationByHardwareId s lid hw = None \<Longrightarrow> pair_count s lid hw = 0"
  by (auto simp: getActivationByHardwareId_def pair_count_def find_None_iff filter_empty_conv)

lemma pair_count_new:
  "pair_count (s\<lparr>activations := activations s @ [new_activation now lid hw mname osname s],
                licenses := ls\<rparr>) lid' hw'
     = pair_count s lid' hw' + (if lid' = lid \<and> hw' = hw then 1 else 0)"
  by (simp add: pair_count_def new_activation_def)

lemma activate_at_most_one:
  assumes "at_most_one s"
  shows "at_most_one (snd (activate R now key hw mname osname s))"
proof (cases rule: activate_cases [of s key R now hw mname osname])
  case absent
  with assms show ?thesis by simp
next
  case (inactive l)
  with assms show ?thesis by simp
next
  case (again l a)
  with assms show ?thesis by (simp add: at_most_one_def pair_count_touch)
next
  case (full l)
  with assms show ?thesis by simp
next
  case (new l)
  from new(1) have "available s" by (rule getLicenseByKey_available)
  with new(3) have "pair_count s (license_id l) hw = 0" by (simp add: pair_count_zero)
  with assms new(5) show ?thesis
    by (auto simp: at_most_one_def pair_count_new)
qed

lemma deactivate_at_most_one:
  assumes "at_most_one s"
  shows "at_most_one (snd (deactivate now key hw s))"
proof (cases "fst (deactivate now key hw s)")
  case (Inl e)
  with assms show ?thesis by (simp add: deactivate_failure_keeps_store)
next
  case (Inr b)
  then obtain l a where "getLicenseByKey s key = Some l"
    and "getActivationByHardwareId s (license_id l) hw = Some a"
    by (auto simp: deactivate_def split: option.splits)
  then have "snd (deactivate now key hw s)
      = s\<lparr>activations := map (retire (activation_id a)) (activations s),
          licenses := map (bump now (- 1) (license_id l)) (licenses s)\<rparr>"
    by (simp add: deactivate_found)
  moreover have "pair_count
       (s\<lparr>activations := map (retire (activation_id a)) (activations s),
          licenses := map (bump now (- 1) (license_id l)) (licenses s)\<rparr>) lid h \<le> 1" for lid h
  proof -
    have "pair_count
       (s\<lparr>activations := map (retire (activation_id a)) (activations s),
          licenses := map (bump now (- 1) (license_id l)) (licenses s)\<rparr>) lid h
       \<le> pair_count s lid h"
      by (rule pair_count_retire)
    also from assms have "\<dots> \<le> 1"
      by (simp add: at_most_one_def)
    finally show ?thesis .
  qed
  ultimately show ?thesis
    by (simp add: at_most_one_def)
qed

lemma activate_twice:
  assumes "fst (activate R t1 key hw m1 o1 s) = Inr r"
  shows "success r
         \<and> fst (activate R t2 key hw m2 o2 (snd (activate R t1 key hw m1 o1 s))) = Inr already
         \<and> licenses (snd (activate R t2 key hw m2 o2 (snd (activate R t1 key hw m1 o1 s))))
             = licenses (snd (activate R t1 key hw m1 o1 s))"
proof (cases rule: activate_cases [of s key R t1 hw m1 o1])
  case absent
  with assms show ?thesis by simp
next
  case (inactive l)
  with assms show ?thesis by simp
next
  case (full l)
  with assms show ?thesis by simp
next
  case (again l a)
  let ?s1 = "s\<lparr>activations := map (touch t1 (activation_id a)) (activations s)\<rparr>"
  have 1: "getLicenseByKey ?s1 key = Some l"
    using again(1) by simp
  have 2: "getActivationByHardwareId ?s1 (license_id l) hw = Some (touch t1 (activation_id a) a)"
    using again(3) by (simp add: getActivation_touch)
  have "activate R t2 key hw m2 o2 ?s1
      = (Inr already,
         ?s1\<lparr>activations := map (touch t2 (activation_id (touch t1 (activation_id a) a)))
                               (activations ?s1)\<rparr>)"
    using 1 again(2) 2 by (rule activate_again)
  moreover from assms again(4) have "r = already" by simp
  ultimately show ?thesis
    using again(4) by (simp add: already_def)
next
  case (new l)
  from new(1) have av: "available s" by (rule getLicenseByKey_available)
  let ?a = "new_activation t1 (license_id l) hw m1 o1 s"
  let ?s1 = "s\<lparr>activations := activations s @ [?a],
               licenses := map (bump t1 1 (license_id l)) (licenses s)\<rparr>"
  let ?l = "bump t1 1 (license_id l) l"
  have 1: "getLicenseByKey ?s1 key = Some ?l"
    using new(1) by (simp add: getLicenseByKey_bump)
  have 2: "license_status ?l = LicenseActive" and 3: "license_id ?l = license_id l"
    using new(2) by (simp_all add: bump_def)
  have 4: "getActivationByHardwareId ?s1 (license_id ?l) hw = Some ?a"
    using new(3) av by (simp add: 3 getActivation_new)
  have "activate R t2 key hw m2 o2 ?s1
      = (Inr already, ?s1\<lparr>activations := map (touch t2 (activation_id ?a)) (activations ?s1)\<rparr>)"
    using 1 2 4 by (rule activate_again)
  moreover from assms new(5) have "r = activated R t1 key hw" by simp
  ultimately show ?thesis
    using new(5) by (simp add: activated_def)
qed

lemma fresh_id_notin: "fresh_id ids \<notin> set ids"
proof -
  have "x \<le> foldr max ids 0" if "x \<in> set ids" for x
    using that by (induction ids) (auto simp: max_def)
  then show ?thesis
    by (fastforce simp: fresh_id_def)
qed

lemma same_row:
  "distinct (map f xs) \<Longrightarrow> x \<in> set xs \<Longrightarrow> y \<in> set xs \<Longrightarrow> f x = f y \<Longrightarrow> x = y"
  by (meson distinct_map inj_onD)

lemma ids_touch [simp]: "activation_id \<circ> touch now aid = activation_id"
  by (rule ext) (simp add: touch_def)

lemma ids_retire [simp]: "activation_id \<circ> retire aid = activation_id"
  by (rule ext) (simp add: retire_def)

lemma ids_bump [simp]: "license_id \<circ> bump now d lid = license_id"
  by (rule ext) (simp add: bump_def)

lemma owner_touch [simp]: "licenseId (touch now aid a) = licenseId a"
  by (simp add: touch_def)

lemma owner_retire [simp]: "licenseId (retire aid a) = licenseId a"
  by (simp add: retire_def)

lemma license_ids_bump [simp]: "license_id ` bump now d lid ` A = license_id ` A"
  by (simp add: image_comp)

lemma active_count_touch:
  "active_count (s\<lparr>activations := map (touch now aid) (activations s)\<rparr>) lid = active_count s lid"
proof -
  have "length (filter (\<lambda>a. licenseId a = lid \<and> activation_status a = ActivationActive)
                  (map (touch now aid) xs))
        = length (filter (\<lambda>a. licenseId a = lid \<and> activation_status a = ActivationActive) xs)"
    for xs
    by (induction xs) (simp_all add: touch_def del: length_filter_map)
  then show ?thesis
    by (simp add: active_count_def del: length_filter_map)
qed

lemma active_count_new:
  "active_count (s\<lparr>activations := activations s @ [new_activation now lid hw mname osname s]\<rparr>)
       lid'
     = active_count s lid' + (if lid' = lid then 1 else 0)"
  by (simp add: active_count_def new_activation_def)

lemma active_count_licenses [simp]: "active_count (s\<lparr>licenses := ls\<rparr>) lid = active_count s lid"
  by (simp add: active_count_def)

lemma retire_absent: "aid \<notin> activation_id ` set xs \<Longrightarrow> map (retire aid) xs = xs"
  by (induction xs) (simp_all add: retire_def)

lemma count_retire:
  assumes "distinct (map activation_id xs)" and "a \<in> set xs"
    and "activation_status a = ActivationActive"
  shows "length (filter (\<lambda>a. licenseId a = lid \<and> activation_status a = ActivationActive)
                   (map (retire (activation_id a)) xs))
           + (if lid = licenseId a then 1 else 0)
         = length (filter (\<lambda>a. licenseId a = lid \<and> activation_status a = ActivationActive) xs)"
  using assms
proof (induction xs)
  case Nil
  then show ?case by simp
next
  case (Cons x xs)
  show ?case
  proof (cases "x = a")
    case True
    with Cons.prems(1) have "activation_id a \<notin> activation_id ` set xs" by simp
    then have "map (retire (activation_id a)) (x # xs) = retire (activation_id a) a # xs"
      using True by (simp add: retire_absent)
    moreover have "activation_status (retire (activation_id a) a) = ActivationDeactivated"
      by (simp add: retire_def)
    ultimately show ?thesis
      using True Cons.prems(3) by (simp del: length_filter_map)
  next
    case False
    with Cons.prems have a: "a \<in> set xs" and d: "distinct (map activation_id xs)"
      and x: "activation_id x \<noteq> activation_id a"
      by auto
    from x have "retire (activation_id a) x = x" by (simp add: retire_def)
    with Cons.IH [OF d a Cons.prems(3)] show ?thesis
      by (auto simp del: length_filter_map split: if_splits)
  qed
qed

lemma active_count_retire:
  assumes "distinct (map activation_id (activations s))" and "a \<in> set (activations s)"
    and "activation_status a = ActivationActive"
  shows "active_count (s\<lparr>activations := map (retire (activation_id a)) (activations s)\<rparr>) lid
           + (if lid = licenseId a then 1 else 0)
         = active_count s lid"
  using count_retire [OF assms, of lid] by (simp add: active_count_def del: length_filter_map)

lemma getActivation_found:
  assumes "getActivationByHardwareId s lid hw = Some a"
  shows "a \<in> set (activations s) \<and> licenseId a = lid \<and> hardwareId a = hw
         \<and> activation_status a = ActivationActive"
  using assms by (auto simp: getActivationByHardwareId_def split: if_splits dest: find_in_set)

lemma getLicense_found:
  assumes "getLicenseByKey s key = Some l"
  shows "l \<in> set (licenses s) \<and> licenseKey l = key"
  using assms by (auto simp: getLicenseByKey_def split: if_splits dest: find_in_set)

lemma activate_store_inv:
  assumes "store_inv s"
  shows "store_inv (snd (activate R now key hw mname osname s))"
proof (cases rule: activate_cases [of s key R now hw mname osname])
  case absent
  with assms show ?thesis by simp
next
  case (inactive l)
  with assms show ?thesis by simp
next
  case (full l)
  with assms show ?thesis by simp
next
  case (again l a)
  with assms show ?thesis
    by (auto simp: store_inv_def keys_ok_def counts_ok_def active_count_touch)
next
  case (new l)
  from new(1) have l: "l \<in> set (licenses s)" by (simp add: getLicense_found)
  from assms have d: "distinct (map license_id (licenses s))"
    by (simp add: store_inv_def keys_ok_def)
  let ?s' = "s\<lparr>activations := activations s @ [new_activation now (license_id l) hw mname osname s],
               licenses := map (bump now 1 (license_id l)) (licenses s)\<rparr>"
  have "keys_ok ?s'"
    using assms l fresh_id_notin [of "map activation_id (activations s)"]
    by (auto simp: store_inv_def keys_ok_def new_activation_def)
  moreover have "counts_ok ?s'"
    unfolding counts_ok_def
  proof
    fix l' assume "l' \<in> set (licenses ?s')"
    then obtain l0 where l0: "l0 \<in> set (licenses s)" and l': "l' = bump now 1 (license_id l) l0"
      by auto
    from assms l0 have ok: "currentActivations l0 = int (active_count s (license_id l0))"
      "0 \<le> currentActivations l0" "currentActivations l0 \<le> maxActivations l0"
      by (auto simp: store_inv_def counts_ok_def)
    show "currentActivations l' = int (active_count ?s' (license_id l'))
        \<and> 0 \<le> currentActivations l' \<and> currentActivations l' \<le> maxActivations l'"
    proof (cases "license_id l0 = license_id l")
      case True
      with d l l0 have "l0 = l" by (rule_tac same_row [of license_id "licenses s"])
      with ok new(4) True show ?thesis
        by (simp add: l' bump_def active_count_new)
    next
      case False
      with ok show ?thesis
        by (simp add: l' bump_def active_count_new)
    qed
  qed
  ultimately show ?thesis
    using new(5) by (simp add: store_inv_def)
qed

lemma deactivate_store_inv:
  assumes "store_inv s"
  shows "store_inv (snd (deactivate now key hw s))"
proof (cases "fst (deactivate now key hw s)")
  case (Inl e)
  with assms show ?thesis by (simp add: deactivate_failure_keeps_store)
next
  case (Inr b)
  then obtain l a where l: "getLicenseByKey s key = Some l"
    and a: "getActivationByHardwareId s (license_id l) hw = Some a"
    by (auto simp: deactivate_def split: option.splits)
  let ?s' = "s\<lparr>activations := map (retire (activation_id a)) (activations s),
               licenses := map (bump now (- 1) (license_id l)) (licenses s)\<rparr>"
  from l a have s': "snd (deactivate now key hw s) = ?s'"
    by (simp add: deactivate_found)
  from l have lin: "l \<in> set (licenses s)" by (simp add: getLicense_found)
  from a have ain: "a \<in> set (activations s)" and own: "licenseId a = license_id l"
    and act: "activation_status a = ActivationActive"
    by (simp_all add: getActivation_found)
  from assms have d: "distinct (map license_id (licenses s))"
    and da: "distinct (map activation_id (activations s))"
    by (simp_all add: store_inv_def keys_ok_def)
  note cnt = active_count_retire [OF da ain act]
  have "keys_ok ?s'"
    using assms by (auto simp: store_inv_def keys_ok_def)
  moreover have "counts_ok ?s'"
    unfolding counts_ok_def
  proof
    fix l' assume "l' \<in> set (licenses ?s')"
    then obtain l0 where l0: "l0 \<in> set (licenses s)"
      and l': "l' = bump now (- 1) (license_id l) l0"
      by auto
    from assms l0 have ok: "currentActivations l0 = int (active_count s (license_id l0))"
      "0 \<le> currentActivations l0" "currentActivations l0 \<le> maxActivations l0"
      by (auto simp: store_inv_def counts_ok_def)
    show "currentActivations l' = int (active_count ?s' (license_id l'))
        \<and> 0 \<le> currentActivations l' \<and> currentActivations l' \<le> maxActivations l'"
    proof (cases "license_id l0 = license_id l")
      case True
      with d lin l0 have "l0 = l" by (rule_tac same_row [of license_id "licenses s"])
      with ok True own cnt [of "license_id l"]
      show ?thesis
        by (simp add: l' bump_def)
    next
      case False
      with ok own cnt [of "license_id l0"]
      show ?thesis
        by (simp add: l' bump_def)
    qed
  qed
  ultimately show ?thesis
    using s' by (simp add: store_inv_def)
qed


lemma generate_store_inv:
  assumes "store_inv s" and "0 \<le> maxAct"
  shows "store_inv (snd (generate E R now rnd mail maxAct x p s))"
proof (cases "fst (generate E R now rnd mail maxAct x p s)")
  case (Inl e)
  then have "snd (generate E R now rnd mail maxAct x p s) = s"
    by (auto simp: generate_def Let_def split: sum.splits if_splits)
  with assms show ?thesis by simp
next
  case (Inr k)
  define nid where "nid = fresh_id (map license_id (licenses s))"
  let ?row = "\<lparr>license_id = nid, licenseKey = generateLicenseKey R mail maxAct x now rnd,
      email = mail, purchaseId = p, maxActivations = maxAct, currentActivations = 0,
      expiresAt = (case x of None \<Rightarrow> None
                   | Some d \<Rightarrow> if d = 0 then None else Some (now + d * 24 * 60 * 60 * 1000)),
      license_status = LicenseActive, createdAt = now, updatedAt = now\<rparr>"
  from Inr have s': "snd (generate E R now rnd mail maxAct x p s) = s\<lparr>licenses := licenses s @ [?row]\<rparr>"
    by (auto simp: generate_def createLicense_def Let_def nid_def split: if_splits)
  have fresh: "nid \<notin> license_id ` set (licenses s)"
    using fresh_id_notin [of "map license_id (licenses s)"] by (simp add: nid_def)
  with assms(1) have none: "active_count s nid = 0"
    by (auto simp: store_inv_def keys_ok_def active_count_def filter_empty_conv)
  have "keys_ok (s\<lparr>licenses := licenses s @ [?row]\<rparr>)"
    using assms(1) fresh by (auto simp: store_inv_def keys_ok_def)
  moreover have "counts_ok (s\<lparr>licenses := licenses s @ [?row]\<rparr>)"
    using assms none by (auto simp: store_inv_def counts_ok_def)
  ultimately show ?thesis
    using s' by (simp add: store_inv_def)
qed

lemma store_inv_empty: "store_inv no_store"
  by (simp add: store_inv_def keys_ok_def counts_ok_def no_store_def)

lemma activate_each_capacity:
  assumes "getLicenseByKey s key = Some l" and "license_status l = LicenseActive"
    and "distinct hws"
    and "\<forall>hw \<in> set hws. getActivationByHardwareId s (license_id l) hw = None"
  shows "fst (activate_each R now key hws s)
           = map (\<lambda>hw. Inr (activated R now key hw))
               (take (nat (maxActivations l - currentActivations l)) hws)
             @ replicate (length hws - nat (maxActivations l - currentActivations l))
                 (Inl MaximumActivationsReached)
         \<and> map_option currentActivations (getLicenseByKey (snd (activate_each R now key hws s)) key)
           = Some (currentActivations l
                   + int (min (length hws) (nat (maxActivations l - currentActivations l))))"
  using assms
proof (induction hws arbitrary: s l)
  case Nil
  then show ?case by simp
next
  case (Cons hw hws)
  from Cons.prems(1) have av: "available s" by (rule getLicenseByKey_available)
  from Cons.prems have none: "getActivationByHardwareId s (license_id l) hw = None"
    and rest: "\<forall>h \<in> set hws. getActivationByHardwareId s (license_id l) h = None"
    and dist: "distinct hws" and notin: "hw \<notin> set hws"
    by simp_all
  show ?case
  proof (cases "currentActivations l < maxActivations l")
    case False
    then have full: "maxActivations l \<le> currentActivations l" by simp
    then have z: "nat (maxActivations l - currentActivations l) = 0" by simp
    from activate_full [OF Cons.prems(1,2) none full]
    have a: "activate R now key hw None None s = (Inl MaximumActivationsReached, s)" .
    from Cons.IH [OF Cons.prems(1,2) dist rest] z a show ?thesis
      by (simp add: split_def)
  next
    case True
    let ?s1 = "s\<lparr>activations := activations s @ [new_activation now (license_id l) hw None None s],
                 licenses := map (bump now 1 (license_id l)) (licenses s)\<rparr>"
    let ?l1 = "bump now 1 (license_id l) l"
    from activate_new [OF Cons.prems(1,2) none True]
    have a: "activate R now key hw None None s = (Inr (activated R now key hw), ?s1)" .
    have 1: "getLicenseByKey ?s1 key = Some ?l1"
      using Cons.prems(1) by (simp add: getLicenseByKey_bump)
    have 2: "license_status ?l1 = LicenseActive" and 3: "license_id ?l1 = license_id l"
      and 4: "currentActivations ?l1 = currentActivations l + 1"
      and 5: "maxActivations ?l1 = maxActivations l"
      using Cons.prems(2) by (simp_all add: bump_def)
    have 6: "\<forall>h \<in> set hws. getActivationByHardwareId ?s1 (license_id ?l1) h = None"
      using rest notin av by (auto simp: 3 getActivation_new)
    from True obtain k where k: "nat (maxActivations l - currentActivations l) = Suc k"
      and k': "nat (maxActivations l - (currentActivations l + 1)) = k"
      by (cases "nat (maxActivations l - currentActivations l)") auto
    from Cons.IH [OF 1 2 dist 6] a k k' show ?thesis
      by (auto simp: split_def 4 5)
  qed
qed

lemma activate_in_steps:
  "interleave (activate_step R now key hw mname osname) g [True, True, True, True]
     (AwaitLicense, q, s)
   = (Returned (fst (activate R now key hw mname osname s)), q,
      snd (activate R now key hw mname osname s))"
  by (auto simp: activate_def split: option.splits sum.splits)

section \<open>The claims\<close>

text \<open>
  C1. Validation of the key that issuance returns fails, for every owner, activation
  limit, expiry, clock and signing key: \<open>formatLicenseKey\<close> keeps only the first twenty
  letters and digits of the encoding, in upper case, so the returned key is always
  \<open>EYJWY-XLSB2-FKIJO-IZXLK\<close> and removing its dashes does not give back an encoding of
  payload and signature.
\<close>

theorem issued_key_fails_validation:
  "validateLicenseKey R (generateLicenseKey R mail m x issued rnd) now = bad_format"
  by (simp add: generateLicenseKey_constant validate_issued)

text \<open>
  C2. \<open>activate\<close> does not validate the key. The stored license \<open>license1\<close> is activated
  although its key fails validation.
\<close>

theorem activate_skips_validation:
  "\<not> valid (validateLicenseKey toy issued_key 2000)
   \<and> map_sum id success (fst (activate toy 2000 issued_key (js ''H1'') None None store1)) = Inr True
   \<and> map currentActivations (licenses (snd (activate toy 2000 issued_key (js ''H1'') None None store1)))
       = [1]
   \<and> map hardwareId (activations (snd (activate toy 2000 issued_key (js ''H1'') None None store1)))
       = [js ''H1'']"
  by (simp add: validate_issued bad_format_def activate_def getLicenseByKey_def
      getActivationByHardwareId_def createActivation_def incrementActivationCount_def
      store1_def license1_def)

text \<open>
  C2, amended. The first step of \<open>activate\<close> is the lookup of the key string in the store:
  with no license stored under the key the call is rejected with \<open>License not found\<close>
  and the store is untouched. The outcome of \<open>activate\<close> does not depend on the
  verification function at all.
\<close>

theorem activate_looks_up_first:
  "(getLicenseByKey s key = None \<longrightarrow> activate R now key hw mname osname s = (Inl LicenseNotFound, s))
   \<and> activate (R\<lparr>crypto_verify := v, buffer_from_object := b, greater_than := g\<rparr>)
         now key hw mname osname s
       = activate R now key hw mname osname s"
proof -
  have tok: "createActivationToken (R\<lparr>crypto_verify := v, buffer_from_object := b, greater_than := g\<rparr>)
          key hw now = createActivationToken R key hw now"
    by (simp add: createActivationToken_def)
  have "activate (R\<lparr>crypto_verify := v, buffer_from_object := b, greater_than := g\<rparr>)
          now key hw mname osname s = activate R now key hw mname osname s"
    unfolding activate_def tok by (rule refl)
  then show ?thesis
    by (simp add: activate_def)
qed

theorem activate_looks_up_first_witness:
  "getLicenseByKey no_store issued_key = None
   \<and> activate toy 2000 issued_key (js ''H1'') None None no_store = (Inl LicenseNotFound, no_store)"
proof -
  have h: "getLicenseByKey no_store issued_key = None"
    by (simp add: getLicenseByKey_def no_store_def)
  with activate_looks_up_first [of no_store issued_key toy 2000 "js ''H1''" None None]
  show ?thesis by blast
qed

text \<open>
  C3. The check and the increment of \<open>activate\<close> are not one atomic unit, and the
  increment is not guarded: two calls for a license with \<open>maxActivations = 1\<close> that take
  turns at their \<open>await\<close>s both succeed and leave \<open>currentActivations = 2\<close>, and
  \<open>incrementActivationCount\<close> raises a counter that has reached the limit.
\<close>

theorem concurrent_calls_exceed_limit:
  "fst two_calls = Returned (Inr (activated toy 2000 issued_key (js ''H1'')))
   \<and> fst (snd two_calls) = Returned (Inr (activated toy 2000 issued_key (js ''H2'')))
   \<and> map (\<lambda>l. (currentActivations l, maxActivations l)) (licenses (snd (snd two_calls)))
       = [(2, 1)]
   \<and> map_sum id licenses (incrementActivationCount 3000 1 (store1\<lparr>licenses :=
          [license1\<lparr>currentActivations := 1\<rparr>]\<rparr>))
       = Inr [license1\<lparr>currentActivations := 2, updatedAt := 3000\<rparr>]"
  by (simp add: two_calls_def store1_def license1_def getLicenseByKey_def
      getActivationByHardwareId_def createActivation_def incrementActivationCount_def
      activated_def issued_key_def js_def)


text \<open>
  C3, amended. The check and the increment of \<open>activate\<close> are separate store operations.
  When \<open>n + k\<close> calls from distinct hardware ids run one after the other for a license
  with \<open>maxActivations = n\<close> and no activation yet, exactly the first \<open>n\<close> succeed, the
  other \<open>k\<close> are rejected with \<open>Maximum activations reached\<close>, and \<open>currentActivations\<close> is
  \<open>n\<close> afterwards.
\<close>

theorem sequential_capacity:
  assumes "getLicenseByKey s key = Some l" and "license_status l = LicenseActive"
    and "currentActivations l = 0" and "maxActivations l = int n"
    and "distinct hws" and "length hws = n + k"
    and "\<forall>hw \<in> set hws. getActivationByHardwareId s (license_id l) hw = None"
  shows "fst (activate_each R now key hws s)
           = map (\<lambda>hw. Inr \<lparr>success = True, alreadyActivated = False,
                             activationToken = Some (createActivationToken R key hw now)\<rparr>)
               (take n hws)
             @ replicate k (Inl MaximumActivationsReached)
         \<and> map_option currentActivations (getLicenseByKey (snd (activate_each R now key hws s)) key)
           = Some (int n)"
  using activate_each_capacity [OF assms(1,2,5,7), of R now] assms(3,4,6)
  by (simp add: activated_def [abs_def])

theorem sequential_capacity_witness:
  "getLicenseByKey store1 issued_key = Some license1
   \<and> license_status license1 = LicenseActive
   \<and> currentActivations license1 = 0
   \<and> maxActivations license1 = int 1
   \<and> distinct [js ''H1'', js ''H2'']
   \<and> length [js ''H1'', js ''H2''] = 1 + 1
   \<and> getActivationByHardwareId store1 (license_id license1) (js ''H1'') = None
   \<and> getActivationByHardwareId store1 (license_id license1) (js ''H2'') = None
   \<and> fst (activate_each toy 2000 issued_key [js ''H1'', js ''H2''] store1)
       = [Inr \<lparr>success = True, alreadyActivated = False,
               activationToken = Some (createActivationToken toy issued_key (js ''H1'') 2000)\<rparr>,
          Inl MaximumActivationsReached]
   \<and> map_option currentActivations
         (getLicenseByKey (snd (activate_each toy 2000 issued_key [js ''H1'', js ''H2''] store1))
            issued_key)
       = Some 1"
proof -
  have 1: "getLicenseByKey store1 issued_key = Some license1"
    by (simp add: getLicenseByKey_def store1_def license1_def)
  have 2: "license_status license1 = LicenseActive" and 3: "currentActivations license1 = 0"
    and 4: "maxActivations license1 = int 1"
    by (simp_all add: license1_def)
  have 5: "distinct [js ''H1'', js ''H2'']" and 6: "length [js ''H1'', js ''H2''] = 1 + 1"
    by (simp_all add: js_def)
  have 7: "\<forall>hw \<in> set [js ''H1'', js ''H2''].
      getActivationByHardwareId store1 (license_id license1) hw = None"
    by (simp add: getActivationByHardwareId_def store1_def)
  from sequential_capacity [OF 1 2 3 4 5 6 7, of toy 2000] 1 2 3 4 5 6 7 show ?thesis
    by simp
qed

text \<open>
  C4. Issuance does not keep \<open>currentActivations \<le> maxActivations\<close>: a license issued
  with \<open>maxActivations = -1\<close> is stored with \<open>currentActivations = 0\<close>.
\<close>

theorem negative_limit_breaks_invariant:
  "store_inv no_store
   \<and> map (\<lambda>l. (currentActivations l, maxActivations l))
        (licenses (snd (generate admin toy 1000 (replicate 16 0) (js ''a@example.com'') (- 1) None None
                          no_store)))
       = [(0, - 1)]
   \<and> \<not> counts_ok (snd (generate admin toy 1000 (replicate 16 0) (js ''a@example.com'') (- 1) None None
                         no_store))"
proof -
  have "snd (generate admin toy 1000 (replicate 16 0) (js ''a@example.com'') (- 1) None None no_store)
      = \<lparr>available = True,
          licenses = [\<lparr>license_id = 1, licenseKey = issued_key, email = js ''a@example.com'',
                       purchaseId = None, maxActivations = - 1, currentActivations = 0,
                       expiresAt = None, license_status = LicenseActive, createdAt = 1000,
                       updatedAt = 1000\<rparr>],
          activations = []\<rparr>"
    by (simp add: generate_def createLicense_def no_store_def generateLicenseKey_constant
        fresh_id_def admin_def js_def)
  then show ?thesis
    by (simp add: store_inv_empty counts_ok_def)
qed

text \<open>
  C4, amended. In a store with unique ids in which every activation belongs to a stored
  license, \<open>activate\<close> and \<open>deactivate\<close>, run one call at a time, keep for every license
  \<open>0 \<le> currentActivations \<le> maxActivations\<close> and \<open>currentActivations\<close> equal to the number
  of its active activation rows (so \<open>deactivate\<close> never takes the counter below \<open>0\<close>);
  issuance keeps this when \<open>maxActivations\<close> is not negative.
\<close>

theorem operations_keep_invariant:
  assumes "store_inv s"
  shows "store_inv (snd (activate R now key hw mname osname s))
     \<and> store_inv (snd (deactivate now key hw s))
     \<and> (0 \<le> maxAct \<longrightarrow> store_inv (snd (generate E R now rnd mail maxAct x p s)))"
  using assms activate_store_inv deactivate_store_inv generate_store_inv by blast

theorem operations_keep_invariant_witness:
  "store_inv store1
   \<and> store_inv (snd (activate toy 2000 issued_key (js ''H1'') None None store1))
   \<and> store_inv (snd (deactivate 3000 issued_key (js ''H1'')
                       (snd (activate toy 2000 issued_key (js ''H1'') None None store1))))
   \<and> (0::int) \<le> 3
   \<and> store_inv (snd (generate admin toy 1000 (replicate 16 0) (js ''a@example.com'') 3 None None
                       no_store))"
proof -
  have 1: "store_inv store1"
    by (simp add: store_inv_def keys_ok_def counts_ok_def active_count_def store1_def
        license1_def)
  have 2: "store_inv no_store"
    by (rule store_inv_empty)
  from operations_keep_invariant [OF 1, of toy 2000 issued_key "js ''H1''" None None]
  have 3: "store_inv (snd (activate toy 2000 issued_key (js ''H1'') None None store1))"
    by blast
  from operations_keep_invariant [OF 3, where now = 3000 and key = issued_key and hw = "js ''H1''"]
  have 4: "store_inv (snd (deactivate 3000 issued_key (js ''H1'')
                             (snd (activate toy 2000 issued_key (js ''H1'') None None store1))))"
    by blast
  have 5: "(0::int) \<le> 3"
    by simp
  from operations_keep_invariant
         [OF 2, where E = admin and R = toy and now = 1000 and rnd = "replicate 16 0"
            and mail = "js ''a@example.com''" and maxAct = 3 and x = None and p = None] 5
  have 6: "store_inv (snd (generate admin toy 1000 (replicate 16 0) (js ''a@example.com'') 3 None None
                             no_store))"
    by blast
  from 1 3 4 5 6 show ?thesis
    by blast
qed

text \<open>
  C5. A license issued for \<open>0\<close> days is not reported expired after its issuance: its
  payload carries no expiry, and validation of the issued key ends in the format error.
\<close>

theorem zero_days_not_expired:
  "map_of (license_payload (js ''a@example.com'') 1 (Some 0) 1000 (replicate 16 0)) ''expiresAt''
     = Some VNull
   \<and> error (validateLicenseKey toy
        (generateLicenseKey toy (js ''a@example.com'') 1 (Some 0) 1000 (replicate 16 0)) 2000)
       = Some ''Invalid license key format''"
  by (simp add: license_payload_def generateLicenseKey_constant validate_issued bad_format_def)

text \<open>
  C5, amended. A license issued for \<open>0\<close> days is issued exactly as a license without an
  expiry duration: \<open>expiresAt\<close> is \<open>null\<close> in the payload. The expiry test of the
  validator never reports a payload whose \<open>expiresAt\<close> is \<open>null\<close> or absent as expired,
  at any instant.
\<close>

theorem zero_days_is_no_expiry:
  "license_payload mail m (Some 0) issued rnd = license_payload mail m None issued rnd
   \<and> map_of (license_payload mail m None issued rnd) ''expiresAt'' = Some VNull
   \<and> stringify_property VNull = js ''null''
   \<and> JSON_parse (js ''null'') = Some JNull
   \<and> expired R now (Some JNull) = Inr False
   \<and> expired R now None = Inr False"
  by (simp add: license_payload_def expired_def JSON_parse_def js_def is_space_def is_digit_def)

text \<open>
  C6. When a call of \<open>activate\<close> succeeds, a second call for the same key and hardware id
  succeeds as well, with \<open>alreadyActivated\<close>, and leaves the license rows as they are, so
  \<open>currentActivations\<close> does not change. If no license and machine had more than one
  active activation row before, none has after the first call or after the second.
\<close>

theorem reactivation_is_idempotent:
  assumes "fst (activate R t1 key hw m1 o1 s) = Inr r"
  shows "success r
     \<and> fst (activate R t2 key hw m2 o2 (snd (activate R t1 key hw m1 o1 s)))
         = Inr \<lparr>success = True, alreadyActivated = True, activationToken = None\<rparr>
     \<and> licenses (snd (activate R t2 key hw m2 o2 (snd (activate R t1 key hw m1 o1 s))))
         = licenses (snd (activate R t1 key hw m1 o1 s))
     \<and> (at_most_one s \<longrightarrow>
          at_most_one (snd (activate R t1 key hw m1 o1 s))
          \<and> at_most_one (snd (activate R t2 key hw m2 o2 (snd (activate R t1 key hw m1 o1 s)))))"
proof -
  from activate_twice [OF assms, of t2 m2 o2]
  have "success r"
    and "fst (activate R t2 key hw m2 o2 (snd (activate R t1 key hw m1 o1 s)))
         = Inr \<lparr>success = True, alreadyActivated = True, activationToken = None\<rparr>"
    and "licenses (snd (activate R t2 key hw m2 o2 (snd (activate R t1 key hw m1 o1 s))))
         = licenses (snd (activate R t1 key hw m1 o1 s))"
    by (simp_all add: already_def)
  then show ?thesis
    using activate_at_most_one by blast
qed


theorem reactivation_is_idempotent_witness:
  "fst (activate toy 2000 issued_key (js ''H1'') None None store1)
     = Inr (activated toy 2000 issued_key (js ''H1''))
   \<and> success (activated toy 2000 issued_key (js ''H1''))
   \<and> fst (activate toy 3000 issued_key (js ''H1'') None None
            (snd (activate toy 2000 issued_key (js ''H1'') None None store1)))
       = Inr \<lparr>success = True, alreadyActivated = True, activationToken = None\<rparr>
   \<and> licenses (snd (activate toy 3000 issued_key (js ''H1'') None None
                      (snd (activate toy 2000 issued_key (js ''H1'') None None store1))))
       = licenses (snd (activate toy 2000 issued_key (js ''H1'') None None store1))
   \<and> at_most_one store1
   \<and> at_most_one (snd (activate toy 2000 issued_key (js ''H1'') None None store1))
   \<and> at_most_one (snd (activate toy 3000 issued_key (js ''H1'') None None
                          (snd (activate toy 2000 issued_key (js ''H1'') None None store1))))"
proof -
  have 1: "getLicenseByKey store1 issued_key = Some license1"
    by (simp add: getLicenseByKey_def store1_def license1_def)
  have 2: "license_status license1 = LicenseActive"
    and 3: "currentActivations license1 < maxActivations license1"
    by (simp_all add: license1_def)
  have 4: "getActivationByHardwareId store1 (license_id license1) (js ''H1'') = None"
    by (simp add: getActivationByHardwareId_def store1_def)
  from activate_new [OF 1 2 4 3, of toy 2000 None None]
  have h: "fst (activate toy 2000 issued_key (js ''H1'') None None store1)
      = Inr (activated toy 2000 issued_key (js ''H1''))"
    by simp
  have a: "at_most_one store1"
    by (simp add: at_most_one_def pair_count_def store1_def)
  from reactivation_is_idempotent [OF h, of 3000 None None] h a show ?thesis
    by blast
qed




text \<open>
  C8. The bytes that the issued key decodes to are not the text of a JSON document, so
  validation of the issued key already ends in the format error, and so does validation
  after the first byte has been changed from 17 to 16: the signature check is not
  reached. The signature error is reported for a well-formed key whose signature does
  not verify, such as \<open>forged_key\<close>.
\<close>

theorem tampered_key_is_malformed:
  "validateLicenseKey R issued_key now = bad_format
   \<and> base64_decode (filter (\<lambda>c. c \<noteq> 45) issued_key) = [17, 130, 86, 97, 114, 210, 7, 97, 74, 32, 147, 136, 101, 114, 202]
   \<and> validateLicenseKey R (base64_encode ((base64_decode (filter (\<lambda>c. c \<noteq> 45) issued_key))[0 := 16])) now = bad_format
   \<and> validateLicenseKey toy forged_key 2000
       = \<lparr>valid = False, payload = None, error = Some ''Invalid signature''\<rparr>"
proof (intro conjI)
  show "validateLicenseKey R issued_key now = bad_format"
    by (rule validate_issued)
  show d: "base64_decode (filter (\<lambda>c. c \<noteq> 45) issued_key)
      = [17, 130, 86, 97, 114, 210, 7, 97, 74, 32, 147, 136, 101, 114, 202]"
    by (simp add: issued_key_def js_def base64_decode_def unbase64_def List.map_filter_simps)
  show "validateLicenseKey R (base64_encode ((base64_decode (filter (\<lambda>c. c \<noteq> 45) issued_key))[0 := 16])) now = bad_format"
    unfolding d
    by (simp add: bad_format_def validateLicenseKey_def validate_try_def js_def b64char_def
        base64_decode_def unbase64_def List.map_filter_simps utf8_step_def continuation_def
        second_ok_def parse_def JSON_parse_def is_space_def is_digit_def)
  show "validateLicenseKey toy forged_key 2000
      = \<lparr>valid = False, payload = None, error = Some ''Invalid signature''\<rparr>"
    by code_simp
qed

text \<open>
  C9. Whenever \<open>activate\<close> or \<open>deactivate\<close> ends in a failure, whatever the error, the
  store it leaves behind is the store it was given: no activation row is created or
  changed and no counter moves. (A repeated activation, \<open>alreadyActivated\<close>, is a success
  and does touch \<open>lastSeenAt\<close>.)
\<close>

theorem failure_mutates_nothing:
  "(fst (activate R now key hw mname osname s) = Inl e
      \<longrightarrow> snd (activate R now key hw mname osname s) = s)
   \<and> (fst (deactivate now key hw s) = Inl e \<longrightarrow> snd (deactivate now key hw s) = s)"
  using activate_failure_keeps_store deactivate_failure_keeps_store by blast

theorem failure_mutates_nothing_witness:
  "fst (activate toy 2000 issued_key (js ''H1'') None None revoked_store)
     = Inl (LicenseIs LicenseRevoked)
   \<and> snd (activate toy 2000 issued_key (js ''H1'') None None revoked_store) = revoked_store
   \<and> fst (deactivate 2000 issued_key (js ''H1'') store1) = Inl ActivationNotFound
   \<and> snd (deactivate 2000 issued_key (js ''H1'') store1) = store1"
proof -
  have a: "fst (activate toy 2000 issued_key (js ''H1'') None None revoked_store)
             = Inl (LicenseIs LicenseRevoked)"
    by (simp add: activate_def revoked_store_def store1_def license1_def getLicenseByKey_def)
  have d: "fst (deactivate 2000 issued_key (js ''H1'') store1) = Inl ActivationNotFound"
    by (simp add: deactivate_def store1_def license1_def getLicenseByKey_def
        getActivationByHardwareId_def)
  from a failure_mutates_nothing
         [of toy 2000 issued_key "js ''H1''" None None revoked_store "LicenseIs LicenseRevoked"]
  have "snd (activate toy 2000 issued_key (js ''H1'') None None revoked_store) = revoked_store"
    by blast
  moreover from d failure_mutates_nothing
         [of toy 2000 issued_key "js ''H1''" None None store1 ActivationNotFound]
  have "snd (deactivate 2000 issued_key (js ''H1'') store1) = store1"
    by blast
  ultimately show ?thesis
    using a d by simp
qed

text \<open>
  C10. \<open>validateLicenseKey\<close> and \<open>verifyActivationToken\<close> return a result for every
  input: an exception raised while decoding, parsing or reading a property ends in the
  result with \<open>valid = false\<close> and the format message. A result with \<open>valid = true\<close>
  carries the parsed text of the payload (of the data) and no error; a result with
  \<open>valid = false\<close> carries an error message and no payload.
\<close>

theorem validation_never_throws:
  "(validate_try R key now = Inl e \<longrightarrow> validateLicenseKey R key now = bad_format)
   \<and> (valid (validateLicenseKey R key now) \<longrightarrow>
        (\<exists>text p. payload_text R key = Inr text \<and> JSON_parse text = Some p
           \<and> validateLicenseKey R key now = \<lparr>valid = True, payload = Some p, error = None\<rparr>))
   \<and> (\<not> valid (validateLicenseKey R key now) \<longrightarrow>
        payload (validateLicenseKey R key now) = None
        \<and> error (validateLicenseKey R key now) \<noteq> None)
   \<and> (verify_try R tok = Inl e' \<longrightarrow> verifyActivationToken R tok = bad_token)
   \<and> (token_valid (verifyActivationToken R tok) \<longrightarrow>
        (\<exists>text d. data_text R tok = Inr text \<and> JSON_parse text = Some d
           \<and> verifyActivationToken R tok
               = \<lparr>token_valid = True, token_data_of = Some d, token_error = None\<rparr>))
   \<and> (\<not> token_valid (verifyActivationToken R tok) \<longrightarrow>
        token_data_of (verifyActivationToken R tok) = None
        \<and> token_error (verifyActivationToken R tok) \<noteq> None)"
proof (intro conjI impI)
  assume "validate_try R key now = Inl e"
  then show "validateLicenseKey R key now = bad_format"
    by (simp add: validateLicenseKey_def bad_format_def)
next
  assume "valid (validateLicenseKey R key now)"
  then show "\<exists>text p. payload_text R key = Inr text \<and> JSON_parse text = Some p
      \<and> validateLicenseKey R key now = \<lparr>valid = True, payload = Some p, error = None\<rparr>"
    by (rule validate_valid_payload)
next
  assume a: "\<not> valid (validateLicenseKey R key now)"
  from validate_invalid_error [OF a]
  show "payload (validateLicenseKey R key now) = None" by simp
  from validate_invalid_error [OF a]
  show "error (validateLicenseKey R key now) \<noteq> None" by auto
next
  assume "verify_try R tok = Inl e'"
  then show "verifyActivationToken R tok = bad_token"
    by (simp add: verifyActivationToken_def bad_token_def)
next
  assume "token_valid (verifyActivationToken R tok)"
  then show "\<exists>text d. data_text R tok = Inr text \<and> JSON_parse text = Some d
      \<and> verifyActivationToken R tok
          = \<lparr>token_valid = True, token_data_of = Some d, token_error = None\<rparr>"
    by (rule verify_valid_data)
next
  assume a: "\<not> token_valid (verifyActivationToken R tok)"
  from verify_invalid_error [OF a]
  show "token_data_of (verifyActivationToken R tok) = None" by simp
  from verify_invalid_error [OF a]
  show "token_error (verifyActivationToken R tok) \<noteq> None" by auto
qed

theorem validation_never_throws_witness:
  "validate_try toy issued_key 2000 = Inl SyntaxError
   \<and> validateLicenseKey toy issued_key 2000 = bad_format
   \<and> error (validateLicenseKey toy issued_key 2000) \<noteq> None
   \<and> valid (validateLicenseKey toy empty_key 2000)
   \<and> (\<exists>text p. payload_text toy empty_key = Inr text \<and> JSON_parse text = Some p
         \<and> validateLicenseKey toy empty_key 2000
             = \<lparr>valid = True, payload = Some p, error = None\<rparr>)
   \<and> verify_try toy issued_key = Inl SyntaxError
   \<and> verifyActivationToken toy issued_key = bad_token
   \<and> token_error (verifyActivationToken toy issued_key) \<noteq> None
   \<and> token_valid (verifyActivationToken toy empty_token)
   \<and> (\<exists>text d. data_text toy empty_token = Inr text \<and> JSON_parse text = Some d
         \<and> verifyActivationToken toy empty_token
             = \<lparr>token_valid = True, token_data_of = Some d, token_error = None\<rparr>)"
proof -
  have k1: "validate_try toy issued_key 2000 = Inl SyntaxError"
    by code_simp
  have k2: "valid (validateLicenseKey toy empty_key 2000)"
    by code_simp
  have t1: "verify_try toy issued_key = Inl SyntaxError"
    by code_simp
  have t2: "token_valid (verifyActivationToken toy empty_token)"
    by code_simp
  note bad = validation_never_throws
    [where R = toy and key = issued_key and now = 2000 and e = SyntaxError
       and tok = issued_key and e' = SyntaxError]
  note good = validation_never_throws
    [where R = toy and key = empty_key and now = 2000 and e = SyntaxError
       and tok = empty_token and e' = SyntaxError]
  from bad k1 have b1: "validateLicenseKey toy issued_key 2000 = bad_format"
    by blast
  then have "\<not> valid (validateLicenseKey toy issued_key 2000)"
    by (simp add: bad_format_def)
  with bad have b2: "error (validateLicenseKey toy issued_key 2000) \<noteq> None"
    by blast
  from bad t1 have b3: "verifyActivationToken toy issued_key = bad_token"
    by blast
  then have "\<not> token_valid (verifyActivationToken toy issued_key)"
    by (simp add: bad_token_def)
  with bad have b4: "token_error (verifyActivationToken toy issued_key) \<noteq> None"
    by blast
  from good k2 have g1: "\<exists>text p. payload_text toy empty_key = Inr text
      \<and> JSON_parse text = Some p
      \<and> validateLicenseKey toy empty_key 2000 = \<lparr>valid = True, payload = Some p, error = None\<rparr>"
    by blast
  from good t2 have g2: "\<exists>text d. data_text toy empty_token = Inr text
      \<and> JSON_parse text = Some d
      \<and> verifyActivationToken toy empty_token
          = \<lparr>token_valid = True, token_data_of = Some d, token_error = None\<rparr>"
    by blast
  from k1 b1 b2 k2 g1 t1 b3 b4 t2 g2 show ?thesis
    by blast
qed

end
